theory Spec2Isabelle
  imports Main "HOL-Library.Sublist" "HOL-Library.Log_Nat"
begin

section \<open>World Calc Hub: a shallow embedding\<close>

text \<open>
  The program is one JSX file: numeric helpers (\<open>toNum\<close>, \<open>fmt\<close>), eighteen calculators
  whose results are pure functions of their input fields, a registry of the calculators
  and a shell that filters the registry and picks the calculator on display.
\<close>

subsection \<open>Strings\<close>

text \<open>
  A JavaScript string is a sequence of UTF-16 code units, and the text of an input field
  can hold any of them. So the strings that the program takes apart (the text of a field,
  the search query, the titles and keywords of the registry, a printed numeral) are lists
  of code units, a code unit being its number, from \<open>0\<close> to \<open>65535\<close>; no definition below
  depends on that bound. \<open>ascii\<close> writes a string down from its ASCII characters.
  Identifiers and option labels (the id of a calculator or of a unit, \<open>Add GST\<close>, \<open>Years\<close>)
  are only ever compared with \<open>===\<close> and stay of type \<^typ>\<open>string\<close>, as does the text that
  \<open>fmt\<close> hands back.
\<close>

type_synonym jsstring = "int list"

definition codeUnit :: "char \<Rightarrow> int" where
  "codeUnit c = of_char c"

definition ascii :: "string \<Rightarrow> jsstring" where
  "ascii s = map codeUnit s"

text \<open>
  What \<open>trim\<close>, \<open>parseFloat\<close>, \<open>parseInt\<close> and \<open>Number\<close> strip is the \<open>WhiteSpace\<close> and the
  \<open>LineTerminator\<close> of ECMAScript: TAB, LF, VT, FF, CR, the space, the no-break space
  \<open>U+00A0\<close>, the other space separators of Unicode (\<open>U+1680\<close>, \<open>U+2000\<close> to \<open>U+200A\<close>,
  \<open>U+202F\<close>, \<open>U+205F\<close>, \<open>U+3000\<close>), the line and paragraph separators \<open>U+2028\<close> and
  \<open>U+2029\<close>, and the byte order mark \<open>U+FEFF\<close>. Each is one code unit.
\<close>

definition isWhiteSpace :: "int \<Rightarrow> bool" where
  "isWhiteSpace c = (c \<in> set [0x0009, 0x000A, 0x000B, 0x000C, 0x000D, 0x0020, 0x00A0, 0x1680,
     0x2000, 0x2001, 0x2002, 0x2003, 0x2004, 0x2005, 0x2006, 0x2007, 0x2008, 0x2009, 0x200A,
     0x2028, 0x2029, 0x202F, 0x205F, 0x3000, 0xFEFF])"

definition trimStart :: "jsstring \<Rightarrow> jsstring" where
  "trimStart s = dropWhile isWhiteSpace s"

definition trim :: "jsstring \<Rightarrow> jsstring" where
  "trim s = rev (trimStart (rev (trimStart s)))"

text \<open>
  \<open>toLowerCase\<close> and \<open>toUpperCase\<close> follow the case mappings of the Unicode tables that the
  host was built with. In ASCII the upper-case letters are the code units \<open>0x41\<close> to \<open>0x5A\<close>
  and the lower-case letters \<open>0x61\<close> to \<open>0x7A\<close>, in the same order, and no other ASCII
  character has a case.

  \<open>toUpperCase\<close> is applied in this program to what \<open>toString\<close> prints, which is ASCII
  text: there it turns the letters \<open>a\<close> to \<open>z\<close> into \<open>A\<close> to \<open>Z\<close> and leaves everything else
  as it is.

  \<open>toLowerCase\<close> is applied to the titles and keywords of the registry and to the search
  query, which is any text at all. On plain text, made of ASCII characters and of the arrow
  \<open>U+2192\<close> of the registry (which has no case), it turns the letters \<open>A\<close> to \<open>Z\<close> into \<open>a\<close>
  to \<open>z\<close> on every host. What it makes of any other text is an argument, \<open>hostLower\<close> (as
  \<open>toLocaleString\<close> is an argument of \<open>fmt\<close>).
\<close>

definition lowerChar :: "int \<Rightarrow> int" where
  "lowerChar c = (if 0x41 \<le> c \<and> c \<le> 0x5A then c + 0x20 else c)"

definition upperChar :: "int \<Rightarrow> int" where
  "upperChar c = (if 0x61 \<le> c \<and> c \<le> 0x7A then c - 0x20 else c)"

definition toUpperCase :: "jsstring \<Rightarrow> jsstring" where
  "toUpperCase s = map upperChar s"

definition plain :: "int \<Rightarrow> bool" where
  "plain c = ((0 \<le> c \<and> c < 0x80) \<or> c = 0x2192)"

definition toLowerCase :: "(jsstring \<Rightarrow> jsstring) \<Rightarrow> jsstring \<Rightarrow> jsstring" where
  "toLowerCase hostLower s = (if list_all plain s then map lowerChar s else hostLower s)"

text \<open>\<open>String.prototype.includes\<close>, \<open>s.includes(q)\<close> in the source: is there a position of \<open>s\<close> at which \<open>q\<close> starts?\<close>

fun includesStr :: "jsstring \<Rightarrow> jsstring \<Rightarrow> bool" where
  "includesStr [] q = (q = [])"
| "includesStr (c # s) q = (prefix q (c # s) \<or> includesStr s q)"

subsection \<open>The registry\<close>

datatype component =
    BasicCalculator | PercentageCalculator | DiscountCalculator | GSTCalculator
  | BMICalculator | AgeCalculator | DateDiffCalculator | TemperatureConverter
  | LengthConverter | WeightConverter | TimeConverter | SpeedConverter | AreaConverter
  | EMI | SIP | CompoundInterest | FractionToDecimal | BaseConverter

record calc =
  id' :: string
  title :: jsstring
  keywords' :: jsstring
  el :: component

definition mk :: "string \<Rightarrow> jsstring \<Rightarrow> jsstring \<Rightarrow> component \<Rightarrow> calc" where
  "mk i t k e = \<lparr>id' = i, title = t, keywords' = k, el = e\<rparr>"

definition CALC_REGISTRY :: "calc list" where
  "CALC_REGISTRY =
    [ mk ''basic'' (ascii ''Basic Calculator'') (ascii ''add subtract multiply divide arithmetic'') BasicCalculator,
      mk ''percent'' (ascii ''Percentage'') (ascii ''percentage increase percent off'') PercentageCalculator,
      mk ''discount'' (ascii ''Discount'') (ascii ''sale price off'') DiscountCalculator,
      mk ''gst'' (ascii ''GST/VAT'') (ascii ''tax vat gst inclusive exclusive'') GSTCalculator,
      mk ''bmi'' (ascii ''BMI'') (ascii ''body mass index health'') BMICalculator,
      mk ''age'' (ascii ''Age'') (ascii ''age years months days'') AgeCalculator,
      mk ''datediff'' (ascii ''Date Difference'') (ascii ''days between dates weeks'') DateDiffCalculator,
      mk ''temp'' (ascii ''Temperature'') (ascii ''celsius fahrenheit kelvin'') TemperatureConverter,
      mk ''length'' (ascii ''Length'') (ascii ''mm cm m km inch foot'') LengthConverter,
      mk ''weight'' (ascii ''Weight'') (ascii ''g kg lb mass'') WeightConverter,
      mk ''time'' (ascii ''Time'') (ascii ''seconds minutes hours days'') TimeConverter,
      mk ''speed'' (ascii ''Speed'') (ascii ''km/h m/s mph'') SpeedConverter,
      mk ''area'' (ascii ''Area'') (ascii ''square meter foot'') AreaConverter,
      mk ''emi'' (ascii ''EMI'') (ascii ''loan monthly payment interest'') EMI,
      mk ''sip'' (ascii ''SIP'') (ascii ''mutual fund investment future value'') SIP,
      mk ''compound'' (ascii ''Compound Interest'') (ascii ''interest compounding'') CompoundInterest,
      mk ''fraction'' (ascii ''Fraction '' @ [0x2192] @ ascii '' Decimal'')
         (ascii ''rational number division'') FractionToDecimal,
      mk ''base'' (ascii ''Base Converter'') (ascii ''binary hex decimal'') BaseConverter ]"

subsection \<open>The shell: search and selection\<close>

text \<open>
  \<open>filtered\<close> and \<open>current\<close> of \<open>WorldCalcHub\<close>. The registry is a module constant in the
  source; here it is an argument, so that what happens with an empty registry can be said.
  The first argument of \<open>filtered\<close> is the case mapping of the host.
\<close>

definition matches :: "(jsstring \<Rightarrow> jsstring) \<Rightarrow> jsstring \<Rightarrow> calc \<Rightarrow> bool" where
  "matches hostLower q c =
     (includesStr (toLowerCase hostLower (title c)) q
      \<or> includesStr (toLowerCase hostLower (keywords' c)) q)"

definition filtered :: "(jsstring \<Rightarrow> jsstring) \<Rightarrow> calc list \<Rightarrow> jsstring \<Rightarrow> calc list" where
  "filtered hostLower reg query =
     (let q = toLowerCase hostLower (trim query)
      in if q = [] then reg else filter (matches hostLower q) reg)"

text \<open>
  \<open>filtered.find(c => c.id === active) || filtered[0] || CALC_REGISTRY[0]\<close>: an entry is an
  object, hence truthy, so \<open>||\<close> moves on exactly when its left side is \<open>undefined\<close>
  (\<open>None\<close>).
\<close>

definition orElse :: "'a option \<Rightarrow> 'a option \<Rightarrow> 'a option" where
  "orElse a b = (case a of Some x \<Rightarrow> Some x | None \<Rightarrow> b)"

definition first :: "'a list \<Rightarrow> 'a option" where
  "first xs = (case xs of [] \<Rightarrow> None | x # _ \<Rightarrow> Some x)"

definition current :: "calc list \<Rightarrow> calc list \<Rightarrow> string \<Rightarrow> calc option" where
  "current reg flt active =
     orElse (orElse (find (\<lambda>c. id' c = active) flt) (first flt)) (first reg)"

section \<open>Numbers\<close>

subsection \<open>IEEE 754 binary64 with round-to-nearest, ties-to-even\<close>

text \<open>
  A JavaScript number is a binary64 value. A finite one is kept as a sign (\<open>True\<close> is
  negative) and the rational magnitude it denotes, so the two zeros are \<open>Fin False 0\<close> and
  \<open>Fin True 0\<close>. Every operation computes the exact rational result and rounds it once,
  as IEEE 754 prescribes: \<open>fround\<close> rounds a magnitude to 53 significant bits (to a multiple
  of \<open>2\<^sup>-\<^sup>1\<^sup>0\<^sup>7\<^sup>4\<close> below \<open>2\<^sup>-\<^sup>1\<^sup>0\<^sup>2\<^sup>2\<close>), ties to the even significand, and overflows to
  infinity from \<open>2\<^sup>1\<^sup>0\<^sup>2\<^sup>4\<close> on.

  A decimal literal in a text is turned into a number the same way: the exact value of the
  digits is rounded once. (ECMAScript lets a host stop reading a decimal literal after twenty
  significant digits; the engines in use round correctly.)
\<close>

datatype double = NaN | Infinity bool | Fin bool rat

text \<open>\<open>ilog2 q\<close> is \<open>\<lfloor>log\<^sub>2 q\<rfloor>\<close> for a positive rational \<open>q\<close>.\<close>

definition ilog2 :: "rat \<Rightarrow> int" where
  "ilog2 q = (if 1 \<le> q then bitlen \<lfloor>q\<rfloor> - 1 else - bitlen (\<lceil>1 / q\<rceil> - 1))"

definition pow2 :: "int \<Rightarrow> rat" where
  "pow2 k = (if 0 \<le> k then of_int (2 ^ nat k) else 1 / of_int (2 ^ nat (- k)))"

definition tieEven :: "int \<Rightarrow> rat \<Rightarrow> int" where
  "tieEven f d = (if d < 1 / 2 then f else if 1 / 2 < d then f + 1
                  else if even f then f else f + 1)"

definition roundAt :: "rat \<Rightarrow> int \<Rightarrow> int" where
  "roundAt r f = tieEven f (r - of_int f)"

definition roundEven :: "rat \<Rightarrow> int" where
  "roundEven r = roundAt r \<lfloor>r\<rfloor>"

definition quantize :: "rat \<Rightarrow> rat \<Rightarrow> rat" where
  "quantize q u = of_int (roundEven (q / u)) * u"

definition ulp :: "rat \<Rightarrow> rat" where
  "ulp q = pow2 (max (ilog2 q) (- 1022) - 52)"

definition pack :: "bool \<Rightarrow> rat \<Rightarrow> double" where
  "pack s v = (if pow2 1024 \<le> v then Infinity s else Fin s v)"

definition fround :: "bool \<Rightarrow> rat \<Rightarrow> double" where
  "fround s q = (if q = 0 then Fin s 0 else pack s (quantize q (ulp q)))"

definition sval :: "bool \<Rightarrow> rat \<Rightarrow> rat" where
  "sval s q = (if s then - q else q)"

fun fneg :: "double \<Rightarrow> double" where
  "fneg NaN = NaN"
| "fneg (Infinity s) = Infinity (\<not> s)"
| "fneg (Fin s q) = Fin (\<not> s) q"

fun fmul :: "double \<Rightarrow> double \<Rightarrow> double" where
  "fmul NaN _ = NaN"
| "fmul _ NaN = NaN"
| "fmul (Infinity s) (Infinity t) = Infinity (s \<noteq> t)"
| "fmul (Infinity s) (Fin t q) = (if q = 0 then NaN else Infinity (s \<noteq> t))"
| "fmul (Fin s p) (Infinity t) = (if p = 0 then NaN else Infinity (s \<noteq> t))"
| "fmul (Fin s p) (Fin t q) = fround (s \<noteq> t) (p * q)"

fun fdiv :: "double \<Rightarrow> double \<Rightarrow> double" where
  "fdiv NaN _ = NaN"
| "fdiv _ NaN = NaN"
| "fdiv (Infinity s) (Infinity t) = NaN"
| "fdiv (Infinity s) (Fin t q) = Infinity (s \<noteq> t)"
| "fdiv (Fin s p) (Infinity t) = Fin (s \<noteq> t) 0"
| "fdiv (Fin s p) (Fin t q) =
     (if q = 0 then (if p = 0 then NaN else Infinity (s \<noteq> t)) else fround (s \<noteq> t) (p / q))"

text \<open>An exact sum of zero is \<open>+0\<close>, except that \<open>-0 + -0\<close> is \<open>-0\<close>.\<close>

definition fsum :: "bool \<Rightarrow> rat \<Rightarrow> double" where
  "fsum z v = (if v = 0 then Fin z 0 else fround (v < 0) \<bar>v\<bar>)"

fun fadd :: "double \<Rightarrow> double \<Rightarrow> double" where
  "fadd NaN _ = NaN"
| "fadd _ NaN = NaN"
| "fadd (Infinity s) (Infinity t) = (if s = t then Infinity s else NaN)"
| "fadd (Infinity s) (Fin t q) = Infinity s"
| "fadd (Fin s p) (Infinity t) = Infinity t"
| "fadd (Fin s p) (Fin t q) = fsum (s \<and> t) (sval s p + sval t q)"

definition fsub :: "double \<Rightarrow> double \<Rightarrow> double" where
  "fsub a b = fadd a (fneg b)"

text \<open>A decimal literal of the source, such as \<open>0.0254\<close>, is the double nearest to it.\<close>

definition lit :: "rat \<Rightarrow> double" where
  "lit q = fround False q"

text \<open>\<open>Number.isFinite\<close>, \<open>Number.isNaN\<close> and \<open>===\<close> on numbers.\<close>

fun isFinite :: "double \<Rightarrow> bool" where
  "isFinite (Fin _ _) = True"
| "isFinite _ = False"

fun isNaN :: "double \<Rightarrow> bool" where
  "isNaN NaN = True"
| "isNaN _ = False"

fun strictEq :: "double \<Rightarrow> double \<Rightarrow> bool" where
  "strictEq NaN _ = False"
| "strictEq _ NaN = False"
| "strictEq (Infinity s) (Infinity t) = (s = t)"
| "strictEq (Fin s p) (Fin t q) = (p = q \<and> (s = t \<or> p = 0))"
| "strictEq _ _ = False"

subsection \<open>Tolerance\<close>

text \<open>
  What "within floating tolerance" means below. \<open>near n a b\<close>: each of the positive
  rationals \<open>a\<close> and \<open>b\<close> is at most the other times \<open>(1 + 2\<^sup>-\<^sup>5\<^sup>2)\<^sup>n\<close>, which is what \<open>n\<close>
  roundings can do. \<open>safe x\<close>: \<open>x\<close> is in the range of the normal doubles, and
  \<open>inRange m x\<close>: \<open>x\<close> is between \<open>2\<^sup>-\<^sup>m\<close> and \<open>2\<^sup>m\<close>. \<open>scaling u k\<close>: the unit \<open>u\<close> multiplies by
  \<open>k\<close> on the way to the base unit and divides by \<open>k\<close> on the way back, each up to one
  rounding.
\<close>

definition eta :: rat where "eta = 1 + 1 / 2 ^ 52"

definition near :: "nat \<Rightarrow> rat \<Rightarrow> rat \<Rightarrow> bool" where
  "near n a b \<longleftrightarrow> a \<le> b * eta ^ n \<and> b \<le> a * eta ^ n"

definition safe :: "rat \<Rightarrow> bool" where
  "safe x \<longleftrightarrow> pow2 (- 1022) \<le> x \<and> x \<le> pow2 1023"

definition inRange :: "int \<Rightarrow> rat \<Rightarrow> bool" where
  "inRange m x \<longleftrightarrow> pow2 (- m) \<le> x \<and> x \<le> pow2 m"

text \<open>\<open>nearBy f a b\<close>: each of \<open>a\<close> and \<open>b\<close> is at most the other times the factor \<open>f\<close>.\<close>

definition nearBy :: "rat \<Rightarrow> rat \<Rightarrow> rat \<Rightarrow> bool" where
  "nearBy f a b \<longleftrightarrow> a \<le> b * f \<and> b \<le> a * f"

subsection \<open>Values and their conversion to numbers\<close>

text \<open>
  The values that reach the helpers in this program: component state is a number or the
  text of an input field, and a calculator's result is a number, \<open>undefined\<close> or \<open>null\<close>.
\<close>

datatype jsval = JUndefined | JNull | JNum double | JStr jsstring

text \<open>
  Digits of a radix up to 36: \<open>0\<close> to \<open>9\<close> (the code units \<open>0x30\<close> to \<open>0x39\<close>), then the
  letters in either case.
\<close>

definition charDigit :: "int \<Rightarrow> int option" where
  "charDigit c = (if 0x30 \<le> c \<and> c \<le> 0x39 then Some (c - 0x30)
                  else if 0x61 \<le> c \<and> c \<le> 0x7A then Some (c - 0x61 + 10)
                  else if 0x41 \<le> c \<and> c \<le> 0x5A then Some (c - 0x41 + 10)
                  else None)"

definition isRadixDigit :: "int \<Rightarrow> int \<Rightarrow> bool" where
  "isRadixDigit R c = (case charDigit c of Some d \<Rightarrow> d < R | None \<Rightarrow> False)"

definition digitOf :: "int \<Rightarrow> int" where
  "digitOf c = (case charDigit c of Some d \<Rightarrow> d | None \<Rightarrow> 0)"

definition radixVal :: "int \<Rightarrow> jsstring \<Rightarrow> int" where
  "radixVal R ds = foldl (\<lambda>a c. R * a + digitOf c) 0 ds"

definition isDigit :: "int \<Rightarrow> bool" where
  "isDigit c = isRadixDigit 10 c"

text \<open>The value \<open>n \<times> 10\<^sup>k\<close> of a decimal literal, rounded to a double.\<close>

definition scale10 :: "int \<Rightarrow> int \<Rightarrow> rat" where
  "scale10 n k = (if 0 \<le> k then of_int (n * 10 ^ nat k)
                  else of_int n / of_int (10 ^ nat (- k)))"

definition decimalValue :: "bool \<Rightarrow> jsstring \<Rightarrow> jsstring \<Rightarrow> int \<Rightarrow> double" where
  "decimalValue neg ip fp ex = fround neg (scale10 (radixVal 10 (ip @ fp)) (ex - int (length fp)))"

text \<open>\<open>ExponentPart\<close>: \<open>e\<close> or \<open>E\<close>, an optional sign and at least one digit.\<close>

definition signedInteger :: "jsstring \<Rightarrow> (int \<times> jsstring) option" where
  "signedInteger s =
     (case s of
        [] \<Rightarrow> None
      | c # r \<Rightarrow>
          if c = codeUnit CHR ''+'' \<or> c = codeUnit CHR ''-'' then
            (if takeWhile isDigit r = [] then None
             else Some ((if c = codeUnit CHR ''-'' then - 1 else 1) * radixVal 10 (takeWhile isDigit r),
                        dropWhile isDigit r))
          else if takeWhile isDigit s = [] then None
          else Some (radixVal 10 (takeWhile isDigit s), dropWhile isDigit s))"

definition exponentPart :: "jsstring \<Rightarrow> (int \<times> jsstring) option" where
  "exponentPart s =
     (case s of
        [] \<Rightarrow> None
      | c # r \<Rightarrow> if c = codeUnit CHR ''e'' \<or> c = codeUnit CHR ''E'' then signedInteger r else None)"

text \<open>
  The longest prefix that is a \<open>StrUnsignedDecimalLiteral\<close>, with its value and the text
  left over: \<open>Infinity\<close>, or digits with an optional fraction and exponent, or a fraction
  with an optional exponent.
\<close>

definition withExponent ::
  "bool \<Rightarrow> jsstring \<Rightarrow> jsstring \<Rightarrow> jsstring \<Rightarrow> (double \<times> jsstring) option" where
  "withExponent neg ip fp r =
     (if ip = [] \<and> fp = [] then None
      else (case exponentPart r of
              None \<Rightarrow> Some (decimalValue neg ip fp 0, r)
            | Some (ex, r') \<Rightarrow> Some (decimalValue neg ip fp ex, r')))"

definition withFraction :: "bool \<Rightarrow> jsstring \<Rightarrow> jsstring \<Rightarrow> (double \<times> jsstring) option" where
  "withFraction neg ip r =
     (case r of
        [] \<Rightarrow> withExponent neg ip [] r
      | c # r' \<Rightarrow>
          if c = codeUnit CHR ''.'' then withExponent neg ip (takeWhile isDigit r') (dropWhile isDigit r')
          else withExponent neg ip [] r)"

definition strUnsignedDecimalLiteral :: "bool \<Rightarrow> jsstring \<Rightarrow> (double \<times> jsstring) option" where
  "strUnsignedDecimalLiteral neg s =
     (if prefix (ascii ''Infinity'') s then Some (Infinity neg, drop 8 s)
      else withFraction neg (takeWhile isDigit s) (dropWhile isDigit s))"

definition strDecimalLiteral :: "jsstring \<Rightarrow> (double \<times> jsstring) option" where
  "strDecimalLiteral s =
     (case s of
        [] \<Rightarrow> None
      | c # r \<Rightarrow>
          if c = codeUnit CHR ''+'' then strUnsignedDecimalLiteral False r
          else if c = codeUnit CHR ''-'' then strUnsignedDecimalLiteral True r
          else strUnsignedDecimalLiteral False s)"

text \<open>\<open>parseFloat\<close>: leading white space is skipped, what follows the literal is ignored.\<close>

definition parseFloat :: "jsstring \<Rightarrow> double" where
  "parseFloat s = (case strDecimalLiteral (trimStart s) of None \<Rightarrow> NaN | Some (v, r) \<Rightarrow> v)"

subsection \<open>\<open>toNum\<close>\<close>

definition removeCommas :: "jsstring \<Rightarrow> jsstring" where
  "removeCommas s = filter (\<lambda>c. c \<noteq> codeUnit CHR '','') s"

text \<open>
  \<open>typeof v === "number" ? v : parseFloat(String(v).replace(/,/g, ""))\<close>, where \<open>String\<close>
  leaves a string as it is and gives the words \<open>undefined\<close> and \<open>null\<close> for these two values.
\<close>

definition coerce :: "jsval \<Rightarrow> double" where
  "coerce v =
     (case v of
        JNum x \<Rightarrow> x
      | JStr s \<Rightarrow> parseFloat (removeCommas s)
      | JUndefined \<Rightarrow> parseFloat (removeCommas (ascii ''undefined''))
      | JNull \<Rightarrow> parseFloat (removeCommas (ascii ''null'')))"

definition orDefault :: "double option \<Rightarrow> double" where
  "orDefault d = (case d of None \<Rightarrow> Fin False 0 | Some x \<Rightarrow> x)"

definition toNum :: "jsval \<Rightarrow> double option \<Rightarrow> double" where
  "toNum v d = (if isFinite (coerce v) then coerce v else orDefault d)"

subsection \<open>\<open>fmt\<close>\<close>

text \<open>
  \<open>Number(v)\<close>. For a string: white space around it is dropped, the empty string is \<open>0\<close>,
  \<open>0x\<close>, \<open>0o\<close> and \<open>0b\<close> introduce an unsigned integer in that radix, and anything else
  must be a decimal literal from end to end.
\<close>

definition nonDecimalRadix :: "int \<Rightarrow> int option" where
  "nonDecimalRadix c = map_of (zip (ascii ''xXoObB'') [16, 16, 8, 8, 2, 2]) c"

definition nonDecimalValue :: "int \<Rightarrow> jsstring \<Rightarrow> double" where
  "nonDecimalValue R ds =
     (if ds \<noteq> [] \<and> list_all (isRadixDigit R) ds then fround False (of_int (radixVal R ds)) else NaN)"

definition nonDecimalIntegerLiteral :: "jsstring \<Rightarrow> double option" where
  "nonDecimalIntegerLiteral t =
     (case t of
        c0 # c1 # ds \<Rightarrow>
          if c0 = codeUnit CHR ''0'' then map_option (\<lambda>R. nonDecimalValue R ds) (nonDecimalRadix c1)
          else None
      | _ \<Rightarrow> None)"

definition wholeDecimal :: "jsstring \<Rightarrow> double" where
  "wholeDecimal t = (case strDecimalLiteral t of
                       None \<Rightarrow> NaN
                     | Some (v, r) \<Rightarrow> if r = [] then v else NaN)"

definition stringToNumber :: "jsstring \<Rightarrow> double" where
  "stringToNumber s =
     (if trim s = [] then Fin False 0
      else (case nonDecimalIntegerLiteral (trim s) of
              Some v \<Rightarrow> v
            | None \<Rightarrow> wholeDecimal (trim s)))"

fun Number :: "jsval \<Rightarrow> double" where
  "Number JUndefined = NaN"
| "Number JNull = Fin False 0"
| "Number (JNum x) = x"
| "Number (JStr s) = stringToNumber s"

text \<open>
  \<open>fmt(n, d = 2)\<close>. What \<open>toLocaleString\<close> prints depends on the locale of the host, so it is
  an argument: \<open>toLocaleString s d\<close> stands for
  \<open>s.toLocaleString(undefined, { maximumFractionDigits: d })\<close>.
\<close>

definition orTwo :: "nat option \<Rightarrow> nat" where
  "orTwo d = (case d of None \<Rightarrow> 2 | Some k \<Rightarrow> k)"

definition fmt :: "(double \<Rightarrow> nat \<Rightarrow> string) \<Rightarrow> jsval \<Rightarrow> nat option \<Rightarrow> string" where
  "fmt toLocaleString n d =
     (if n = JUndefined \<or> n = JNull \<or> n = JNum NaN then ''-''
      else if isFinite (Number n) then toLocaleString (Number n) (orTwo d) else ''-'')"

section \<open>Calculators\<close>

subsection \<open>Unit converters\<close>

text \<open>
  A unit of the tables in \<open>LengthConverter\<close>, \<open>WeightConverter\<close>, \<open>TimeConverter\<close>,
  \<open>SpeedConverter\<close> and \<open>AreaConverter\<close>: its id, the function to the base unit of the table
  (\<open>toM\<close>, \<open>toKg\<close>, \<open>toS\<close>, \<open>toMS\<close>, \<open>toM2\<close>) and the function back (\<open>fromM\<close>, \<open>fromKg\<close>,
  \<open>fromS\<close>, \<open>fromMS\<close>, \<open>fromM2\<close>).
\<close>

record unit =
  uid :: string
  toBase :: "double \<Rightarrow> double"
  fromBase :: "double \<Rightarrow> double"

definition lengthUnits :: "unit list" where
  "lengthUnits =
    [ \<lparr>uid = ''mm'', toBase = (\<lambda>v. fdiv v (lit 1000)), fromBase = (\<lambda>v. fmul v (lit 1000))\<rparr>,
      \<lparr>uid = ''cm'', toBase = (\<lambda>v. fdiv v (lit 100)), fromBase = (\<lambda>v. fmul v (lit 100))\<rparr>,
      \<lparr>uid = ''m'', toBase = (\<lambda>v. v), fromBase = (\<lambda>v. v)\<rparr>,
      \<lparr>uid = ''km'', toBase = (\<lambda>v. fmul v (lit 1000)), fromBase = (\<lambda>v. fdiv v (lit 1000))\<rparr>,
      \<lparr>uid = ''inch'', toBase = (\<lambda>v. fmul v (lit (254 / 10000))),
        fromBase = (\<lambda>v. fdiv v (lit (254 / 10000)))\<rparr>,
      \<lparr>uid = ''ft'', toBase = (\<lambda>v. fmul v (lit (3048 / 10000))),
        fromBase = (\<lambda>v. fdiv v (lit (3048 / 10000)))\<rparr> ]"

definition weightUnits :: "unit list" where
  "weightUnits =
    [ \<lparr>uid = ''g'', toBase = (\<lambda>v. fdiv v (lit 1000)), fromBase = (\<lambda>v. fmul v (lit 1000))\<rparr>,
      \<lparr>uid = ''kg'', toBase = (\<lambda>v. v), fromBase = (\<lambda>v. v)\<rparr>,
      \<lparr>uid = ''lb'', toBase = (\<lambda>v. fmul v (lit (45359237 / 100000000))),
        fromBase = (\<lambda>v. fdiv v (lit (45359237 / 100000000)))\<rparr> ]"

definition timeUnits :: "unit list" where
  "timeUnits =
    [ \<lparr>uid = ''sec'', toBase = (\<lambda>v. v), fromBase = (\<lambda>v. v)\<rparr>,
      \<lparr>uid = ''min'', toBase = (\<lambda>v. fmul v (lit 60)), fromBase = (\<lambda>v. fdiv v (lit 60))\<rparr>,
      \<lparr>uid = ''hr'', toBase = (\<lambda>v. fmul v (lit 3600)), fromBase = (\<lambda>v. fdiv v (lit 3600))\<rparr>,
      \<lparr>uid = ''day'', toBase = (\<lambda>v. fmul v (lit 86400)), fromBase = (\<lambda>v. fdiv v (lit 86400))\<rparr> ]"

definition speedUnits :: "unit list" where
  "speedUnits =
    [ \<lparr>uid = ''m/s'', toBase = (\<lambda>v. v), fromBase = (\<lambda>v. v)\<rparr>,
      \<lparr>uid = ''km/h'', toBase = (\<lambda>v. fdiv v (lit (36 / 10))), fromBase = (\<lambda>v. fmul v (lit (36 / 10)))\<rparr>,
      \<lparr>uid = ''mph'', toBase = (\<lambda>v. fmul v (lit (44704 / 100000))),
        fromBase = (\<lambda>v. fdiv v (lit (44704 / 100000)))\<rparr> ]"

definition areaUnits :: "unit list" where
  "areaUnits =
    [ \<lparr>uid = ''sq m'', toBase = (\<lambda>v. v), fromBase = (\<lambda>v. v)\<rparr>,
      \<lparr>uid = ''sq ft'', toBase = (\<lambda>v. fmul v (lit (9290304 / 100000000))),
        fromBase = (\<lambda>v. fdiv v (lit (9290304 / 100000000)))\<rparr> ]"

definition domains :: "unit list list" where
  "domains = [lengthUnits, weightUnits, timeUnits, speedUnits, areaUnits]"

text \<open>
  The \<open>out\<close> of the five converters, which differ in their table only:
  \<open>units.find(u => u.id === from)\<close>, the same for \<open>to\<close>, \<open>NaN\<close> when either is missing,
  and \<open>t.fromM(f.toM(v))\<close> otherwise.
\<close>

definition convert :: "unit list \<Rightarrow> jsval \<Rightarrow> string \<Rightarrow> string \<Rightarrow> double" where
  "convert units val from to =
     (case find (\<lambda>u. uid u = from) units of
        None \<Rightarrow> NaN
      | Some f \<Rightarrow>
          (case find (\<lambda>u. uid u = to) units of
             None \<Rightarrow> NaN
           | Some t \<Rightarrow> fromBase t (toBase f (toNum val None))))"

definition scaling :: "unit \<Rightarrow> rat \<Rightarrow> bool" where
  "scaling u k \<longleftrightarrow>
     inRange 20 k
     \<and> (\<forall>s q. safe (q * k) \<longrightarrow> (\<exists>v. toBase u (Fin s q) = Fin s v \<and> near 1 (q * k) v))
     \<and> (\<forall>s q. safe (q / k) \<longrightarrow> (\<exists>v. fromBase u (Fin s q) = Fin s v \<and> near 1 (q / k) v))"

subsection \<open>GST\<close>

text \<open>
  The \<open>calc\<close> of \<open>GSTCalculator\<close>, with \<open>a = toNum(amount)\<close> and \<open>r = toNum(rate)/100\<close> written
  out. Adding: \<open>tax = a * r\<close> and \<open>total = a + tax\<close>. Removing (any other mode):
  \<open>base = a / (1 + r)\<close>, \<open>tax = a - base\<close> and \<open>total = base\<close>.
\<close>

record gst =
  tax :: double
  total :: double

definition calc :: "jsval \<Rightarrow> jsval \<Rightarrow> string \<Rightarrow> gst" where
  "calc amount rate mode =
     (if mode = ''Add GST''
      then \<lparr>tax = fmul (toNum amount None) (fdiv (toNum rate None) (lit 100)),
            total = fadd (toNum amount None)
                      (fmul (toNum amount None) (fdiv (toNum rate None) (lit 100)))\<rparr>
      else \<lparr>tax = fsub (toNum amount None)
                    (fdiv (toNum amount None) (fadd (lit 1) (fdiv (toNum rate None) (lit 100)))),
            total = fdiv (toNum amount None) (fadd (lit 1) (fdiv (toNum rate None) (lit 100)))\<rparr>)"

subsection \<open>Loan EMI\<close>

text \<open>
  \<open>Math.round\<close>: the nearest integer, a tie going up; a result of zero keeps the sign of the
  argument.
\<close>

definition roundedTo :: "bool \<Rightarrow> int \<Rightarrow> double" where
  "roundedTo s n = Fin (if n = 0 then s else n < 0) \<bar>of_int n\<bar>"

fun mathRound :: "double \<Rightarrow> double" where
  "mathRound NaN = NaN"
| "mathRound (Infinity s) = Infinity s"
| "mathRound (Fin s q) = roundedTo s \<lfloor>sval s q + 1 / 2\<rfloor>"

record loan =
  emi :: double
  total :: double
  interest :: double
  months :: double

text \<open>
  The \<open>out\<close> of \<open>EMI\<close>, with \<open>principal = toNum(p)\<close> written out: \<open>monthlyR\<close> is
  \<open>toNum(r)/12/100\<close>, \<open>months\<close> is the rounded number of months, and \<open>installment\<close> is
  \<open>principal * monthlyR * (pow / (pow - 1))\<close> for \<open>pow = Math.pow(1 + monthlyR, months)\<close>.
  \<open>Math.pow\<close> is approximated by the host, so it is an argument. The result has a field
  \<open>total\<close>, as the result of the GST calculator has: the two are told apart as \<open>loan.total\<close>
  and \<open>gst.total\<close>.
\<close>

definition monthlyR :: "jsval \<Rightarrow> double" where
  "monthlyR r = fdiv (fdiv (toNum r None) (lit 12)) (lit 100)"

definition monthsOf :: "string \<Rightarrow> jsval \<Rightarrow> double" where
  "monthsOf tenureType t =
     (if tenureType = ''Years'' then mathRound (fmul (toNum t None) (lit 12))
      else mathRound (toNum t None))"

definition installment :: "(double \<Rightarrow> double \<Rightarrow> double) \<Rightarrow> double \<Rightarrow> double \<Rightarrow> double \<Rightarrow> double" where
  "installment pow pr mr ms =
     fmul (fmul pr mr)
       (fdiv (pow (fadd (lit 1) mr) ms) (fsub (pow (fadd (lit 1) mr) ms) (lit 1)))"

text \<open>\<open>x > 0\<close>.\<close>

definition positive :: "double \<Rightarrow> bool" where
  "positive x = (case x of NaN \<Rightarrow> False | Infinity s \<Rightarrow> \<not> s | Fin s q \<Rightarrow> \<not> s \<and> 0 < q)"

definition loanOut ::
  "(double \<Rightarrow> double \<Rightarrow> double) \<Rightarrow> jsval \<Rightarrow> jsval \<Rightarrow> string \<Rightarrow> jsval \<Rightarrow> loan" where
  "loanOut pow p r tenureType t =
     (if strictEq (monthlyR r) (lit 0)
      then \<lparr>emi = fdiv (toNum p None) (monthsOf tenureType t), total = toNum p None,
            interest = lit 0, months = monthsOf tenureType t\<rparr>
      else \<lparr>emi = installment pow (toNum p None) (monthlyR r) (monthsOf tenureType t),
            total = fmul (installment pow (toNum p None) (monthlyR r) (monthsOf tenureType t))
                        (monthsOf tenureType t),
            interest = fsub (fmul (installment pow (toNum p None) (monthlyR r) (monthsOf tenureType t))
                               (monthsOf tenureType t)) (toNum p None),
            months = monthsOf tenureType t\<rparr>)"

subsection \<open>Number base converter\<close>

text \<open>
  \<open>parseInt(val, from)\<close>: leading white space and one sign are dropped, the radix is taken
  as a 32-bit integer, \<open>0x\<close> is dropped when the radix is 16 (or 0, which then means 16, and
  10 otherwise), and the longest run of digits of the radix that follows is read; no such
  digit gives \<open>NaN\<close>. The integer read becomes a double by rounding, and a \<open>-0\<close> when it is
  zero with a minus sign.

  ECMAScript fixes the integer that the digits denote when the radix is 2, 4, 8, 16 or 32,
  and when it is 10 and there are at most twenty significant digits (the zeros at either
  end are not significant). Otherwise the host may
  approximate it: engines add up the digits in doubles, which is exact as long as the
  integer is below \<open>2\<^sup>5\<^sup>3\<close>. What the host makes of the digits beyond that is an argument,
  \<open>approxInt\<close>.
\<close>

definition toInt32 :: "int \<Rightarrow> int" where
  "toInt32 n = (n + 2 ^ 31) mod 2 ^ 32 - 2 ^ 31"

definition stripSign :: "jsstring \<Rightarrow> bool \<times> jsstring" where
  "stripSign s =
     (case s of
        [] \<Rightarrow> (False, [])
      | c # r \<Rightarrow> if c = codeUnit CHR ''-'' then (True, r)
                 else if c = codeUnit CHR ''+'' then (False, r) else (False, s))"

definition hasHexPrefix :: "jsstring \<Rightarrow> bool" where
  "hasHexPrefix s = (prefix (ascii ''0x'') s \<or> prefix (ascii ''0X'') s)"

definition digitRun :: "int \<Rightarrow> jsstring \<Rightarrow> jsstring" where
  "digitRun R s = takeWhile (isRadixDigit R) s"

definition significant :: "jsstring \<Rightarrow> jsstring" where
  "significant ds =
     rev (dropWhile (\<lambda>c. c = codeUnit CHR ''0'') (rev (dropWhile (\<lambda>c. c = codeUnit CHR ''0'') ds)))"

definition fixedByStandard :: "int \<Rightarrow> jsstring \<Rightarrow> bool" where
  "fixedByStandard R ds = (R \<in> set [2, 4, 8, 16, 32] \<or> (R = 10 \<and> length (significant ds) \<le> 20))"

definition mathInt :: "(int \<Rightarrow> jsstring \<Rightarrow> nat) \<Rightarrow> int \<Rightarrow> jsstring \<Rightarrow> int" where
  "mathInt approxInt R ds =
     (if fixedByStandard R ds \<or> radixVal R ds < 2 ^ 53 then radixVal R ds
      else int (approxInt R ds))"

definition integerOf :: "(int \<Rightarrow> jsstring \<Rightarrow> nat) \<Rightarrow> bool \<Rightarrow> int \<Rightarrow> jsstring \<Rightarrow> double" where
  "integerOf approxInt neg R s =
     (if digitRun R s = [] then NaN
      else fround neg (of_int (mathInt approxInt R (digitRun R s))))"

definition parseRadix :: "(int \<Rightarrow> jsstring \<Rightarrow> nat) \<Rightarrow> bool \<Rightarrow> int \<Rightarrow> jsstring \<Rightarrow> double" where
  "parseRadix approxInt neg R s =
     (if R = 0 then (if hasHexPrefix s then integerOf approxInt neg 16 (drop 2 s)
                     else integerOf approxInt neg 10 s)
      else if R < 2 \<or> 36 < R then NaN
      else if R = 16 \<and> hasHexPrefix s then integerOf approxInt neg 16 (drop 2 s)
      else integerOf approxInt neg R s)"

definition parseInt :: "(int \<Rightarrow> jsstring \<Rightarrow> nat) \<Rightarrow> jsstring \<Rightarrow> int \<Rightarrow> double" where
  "parseInt approxInt str radix =
     parseRadix approxInt (fst (stripSign (trimStart str))) (toInt32 radix)
       (snd (stripSign (trimStart str)))"

text \<open>
  What \<open>parseInt\<close> reads in one of the bases on offer: whether there is a minus sign, and
  the run of digits.
\<close>

definition minusSign :: "jsstring \<Rightarrow> bool" where
  "minusSign val = fst (stripSign (trimStart val))"

definition digitsRead :: "jsstring \<Rightarrow> int \<Rightarrow> jsstring" where
  "digitsRead val R =
     (if R = 16 \<and> hasHexPrefix (snd (stripSign (trimStart val)))
      then digitRun R (drop 2 (snd (stripSign (trimStart val))))
      else digitRun R (snd (stripSign (trimStart val))))"

text \<open>
  \<open>n.toString(to)\<close>: a radix outside 2 to 36 is a \<open>RangeError\<close>. An integer of magnitude up
  to \<open>2\<^sup>5\<^sup>3\<close> is printed digit by digit, in lower case. What is printed for the other finite
  numbers (the shortest digits that read back as the same double, in radix 10; digits that
  the standard leaves to the host, in the other radices) is an argument, \<open>approx\<close>.
\<close>

datatype error = RangeError

definition digitChars :: jsstring where
  "digitChars = ascii ''0123456789abcdefghijklmnopqrstuvwxyz''"

function toDigits :: "int \<Rightarrow> int \<Rightarrow> jsstring" where
  "toDigits R n =
     (if R < 2 then []
      else if n < R then [digitChars ! nat n]
      else toDigits R (n div R) @ [digitChars ! nat (n mod R)])"
  by pat_completeness auto
termination
proof (relation "measure (\<lambda>(R, n). nat n)")
  show "wf (measure (\<lambda>(R, n). nat n))" by simp
next
  fix R n :: int
  assume "\<not> R < 2" and "\<not> n < R"
  then have "n div R < n" by (simp add: int_div_less_self)
  moreover have "0 < n" using \<open>\<not> R < 2\<close> \<open>\<not> n < R\<close> by simp
  ultimately show "((R, n div R), (R, n)) \<in> measure (\<lambda>(R, n). nat n)" by simp
qed

declare toDigits.simps [simp del]

definition isInteger :: "rat \<Rightarrow> bool" where
  "isInteger q = (of_int \<lfloor>q\<rfloor> = q)"

definition magnitudeString :: "(rat \<Rightarrow> int \<Rightarrow> jsstring) \<Rightarrow> rat \<Rightarrow> int \<Rightarrow> jsstring" where
  "magnitudeString approx q radix =
     (if isInteger q \<and> q \<le> of_int (2 ^ 53) then toDigits radix \<lfloor>q\<rfloor> else approx q radix)"

fun numberString :: "(rat \<Rightarrow> int \<Rightarrow> jsstring) \<Rightarrow> double \<Rightarrow> int \<Rightarrow> jsstring" where
  "numberString approx NaN radix = ascii ''NaN''"
| "numberString approx (Infinity s) radix = (if s then ascii ''-Infinity'' else ascii ''Infinity'')"
| "numberString approx (Fin s q) radix =
     (if q = 0 then ascii ''0''
      else (if s then ascii ''-'' else []) @ magnitudeString approx q radix)"

definition toString :: "(rat \<Rightarrow> int \<Rightarrow> jsstring) \<Rightarrow> double \<Rightarrow> int \<Rightarrow> error + jsstring" where
  "toString approx x radix =
     (if radix < 2 \<or> 36 < radix then Inl RangeError else Inr (numberString approx x radix))"

text \<open>The \<open>out\<close> of \<open>BaseConverter\<close>.\<close>

definition baseOut ::
  "(int \<Rightarrow> jsstring \<Rightarrow> nat) \<Rightarrow> (rat \<Rightarrow> int \<Rightarrow> jsstring) \<Rightarrow> jsstring \<Rightarrow> int \<Rightarrow> int \<Rightarrow> error + jsstring" where
  "baseOut approxInt approx val from to =
     (if isNaN (parseInt approxInt val from) then Inr (ascii ''-'')
      else map_sum id toUpperCase (toString approx (parseInt approxInt val from) to))"

text \<open>The bases on offer, and what an upper-case digit of a base is.\<close>

definition bases :: "int list" where
  "bases = [2, 8, 10, 16, 36]"

definition upperDigit :: "int \<Rightarrow> int \<Rightarrow> bool" where
  "upperDigit R c = (isRadixDigit R c \<and> upperChar c = c)"

section \<open>Search and selection: proofs\<close>

lemma includes_iff: "includesStr s q \<longleftrightarrow> (\<exists>p r. s = p @ q @ r)"
proof (induction s)
  case Nil
  then show ?case by simp
next
  case (Cons c s)
  show ?case
  proof
    assume "includesStr (c # s) q"
    then consider "prefix q (c # s)" | "includesStr s q" by auto
    then show "\<exists>p r. c # s = p @ q @ r"
    proof cases
      case 1
      then obtain r where "c # s = q @ r" by (auto simp: prefix_def)
      then have "c # s = [] @ q @ r" by simp
      then show ?thesis by blast
    next
      case 2
      with Cons.IH obtain p r where "s = p @ q @ r" by blast
      then have "c # s = (c # p) @ q @ r" by simp
      then show ?thesis by blast
    qed
  next
    assume "\<exists>p r. c # s = p @ q @ r"
    then obtain p r where eq: "c # s = p @ q @ r" by blast
    show "includesStr (c # s) q"
    proof (cases p)
      case Nil
      with eq have "prefix q (c # s)" by (simp add: prefix_def)
      then show ?thesis by simp
    next
      case (Cons a p')
      with eq have "s = p' @ q @ r" by simp
      with Cons.IH have "includesStr s q" by blast
      then show ?thesis by simp
    qed
  qed
qed

lemma filtered_subseq: "subseq (filtered hostLower reg query) reg"
  by (simp add: filtered_def Let_def)

lemma filter_none: "(\<forall>c \<in> set reg. \<not> P c) \<Longrightarrow> filter P reg = []"
  by (induction reg) auto

text \<open>
  C4. For every query, on every host: when the query, trimmed and lower-cased, is empty,
  \<open>filtered\<close> is the registry itself; otherwise it is the registry's entries, in the
  registry's order, whose lower-cased title or keywords contain the trimmed, lower-cased
  query as a substring. It is always a subsequence of the registry, it is empty when no
  entry matches, the empty query gives the whole \<open>CALC_REGISTRY\<close> and \<open>zzz-no-match\<close> gives
  nothing.
\<close>

theorem filtered_spec:
  "(let q = toLowerCase hostLower (trim query) in
     filtered hostLower reg query =
       (if q = [] then reg
        else [c \<leftarrow> reg. (\<exists>p r. toLowerCase hostLower (title c) = p @ q @ r)
                        \<or> (\<exists>p r. toLowerCase hostLower (keywords' c) = p @ q @ r)])
     \<and> subseq (filtered hostLower reg query) reg
     \<and> (q \<noteq> [] \<and> (\<forall>c \<in> set reg. \<not> (\<exists>p r. toLowerCase hostLower (title c) = p @ q @ r)
                                       \<and> \<not> (\<exists>p r. toLowerCase hostLower (keywords' c) = p @ q @ r))
          \<longrightarrow> filtered hostLower reg query = []))
   \<and> filtered hostLower CALC_REGISTRY [] = CALC_REGISTRY
   \<and> filtered hostLower CALC_REGISTRY (ascii ''zzz-no-match'') = []"
proof -
  have a: "filtered hostLower CALC_REGISTRY [] = CALC_REGISTRY"
    by (simp add: filtered_def trim_def trimStart_def toLowerCase_def)
  have b: "filtered hostLower CALC_REGISTRY (ascii ''zzz-no-match'') = []"
    by code_simp
  have m: "matches hostLower q c \<longleftrightarrow> (\<exists>p r. toLowerCase hostLower (title c) = p @ q @ r)
                        \<or> (\<exists>p r. toLowerCase hostLower (keywords' c) = p @ q @ r)" for q c
    by (simp add: matches_def includes_iff)
  have m': "matches hostLower q = (\<lambda>c. (\<exists>p r. toLowerCase hostLower (title c) = p @ q @ r)
                         \<or> (\<exists>p r. toLowerCase hostLower (keywords' c) = p @ q @ r))" for q
    by (rule ext) (rule m)
  define q where "q = toLowerCase hostLower (trim query)"
  have c: "filtered hostLower reg query =
       (if q = [] then reg
        else [c \<leftarrow> reg. (\<exists>p r. toLowerCase hostLower (title c) = p @ q @ r)
                        \<or> (\<exists>p r. toLowerCase hostLower (keywords' c) = p @ q @ r)])"
    by (simp add: filtered_def Let_def m' q_def)
  have d: "filtered hostLower reg query = []"
    if "q \<noteq> []"
      and "\<forall>c \<in> set reg. \<not> (\<exists>p r. toLowerCase hostLower (title c) = p @ q @ r)
                          \<and> \<not> (\<exists>p r. toLowerCase hostLower (keywords' c) = p @ q @ r)"
  proof -
    from that(2) have "\<forall>c \<in> set reg. \<not> matches hostLower q c"
      by (simp add: m)
    then have "filter (matches hostLower q) reg = []"
      by (rule filter_none)
    with that(1) show ?thesis by (simp add: filtered_def Let_def q_def)
  qed
  show ?thesis
    unfolding Let_def q_def[symmetric] using a b c d filtered_subseq[of hostLower reg query] by blast
qed

text \<open>
  A host that knows one case mapping outside ASCII, the Kelvin sign \<open>U+212A\<close>, whose lower
  case is \<open>k\<close>: the query made of a no-break space, an em space and \<open>BMI\<close> finds the BMI
  calculator, a no-break space alone is an empty query, and the Kelvin sign finds the five
  entries with a \<open>k\<close>.
\<close>

theorem filtered_spec_witness:
  "toLowerCase (map (\<lambda>c. if c = 0x212A then 0x6B else lowerChar c)) (trim ([0x00A0, 0x2003] @ ascii ''BMI ''))
     = ascii ''bmi''
   \<and> filtered (map (\<lambda>c. if c = 0x212A then 0x6B else lowerChar c)) CALC_REGISTRY
        ([0x00A0, 0x2003] @ ascii ''BMI '')
       = [c \<leftarrow> CALC_REGISTRY.
            (\<exists>p r. toLowerCase (map (\<lambda>c. if c = 0x212A then 0x6B else lowerChar c)) (title c)
                      = p @ ascii ''bmi'' @ r)
            \<or> (\<exists>p r. toLowerCase (map (\<lambda>c. if c = 0x212A then 0x6B else lowerChar c)) (keywords' c)
                      = p @ ascii ''bmi'' @ r)]
   \<and> filtered (map (\<lambda>c. if c = 0x212A then 0x6B else lowerChar c)) CALC_REGISTRY
        ([0x00A0, 0x2003] @ ascii ''BMI '')
       = [mk ''bmi'' (ascii ''BMI'') (ascii ''body mass index health'') BMICalculator]
   \<and> filtered (map (\<lambda>c. if c = 0x212A then 0x6B else lowerChar c)) CALC_REGISTRY [0x00A0] = CALC_REGISTRY
   \<and> toLowerCase (map (\<lambda>c. if c = 0x212A then 0x6B else lowerChar c)) (trim [0x212A]) = ascii ''k''
   \<and> map id' (filtered (map (\<lambda>c. if c = 0x212A then 0x6B else lowerChar c)) CALC_REGISTRY [0x212A])
       = [''datediff'', ''temp'', ''length'', ''weight'', ''speed'']"
proof -
  define host :: "jsstring \<Rightarrow> jsstring" where
    "host = map (\<lambda>c. if c = 0x212A then 0x6B else lowerChar c)"
  have h: "toLowerCase host (trim ([0x00A0, 0x2003] @ ascii ''BMI '')) = ascii ''bmi''"
    "toLowerCase host (trim [0x212A]) = ascii ''k''"
    unfolding host_def by code_simp+
  have r: "filtered host CALC_REGISTRY ([0x00A0, 0x2003] @ ascii ''BMI '')
             = [mk ''bmi'' (ascii ''BMI'') (ascii ''body mass index health'') BMICalculator]"
    unfolding host_def by code_simp
  have n: "filtered host CALC_REGISTRY [0x00A0] = CALC_REGISTRY"
    unfolding host_def by code_simp
  have ne: "ascii ''bmi'' \<noteq> []" by (simp add: ascii_def)
  have k: "map id' (filtered host CALC_REGISTRY [0x212A])
             = [''datediff'', ''temp'', ''length'', ''weight'', ''speed'']"
    unfolding host_def by code_simp
  have "toLowerCase host (trim ([0x00A0, 0x2003] @ ascii ''BMI '')) = ascii ''bmi''
   \<and> filtered host CALC_REGISTRY ([0x00A0, 0x2003] @ ascii ''BMI '')
       = [c \<leftarrow> CALC_REGISTRY. (\<exists>p r. toLowerCase host (title c) = p @ ascii ''bmi'' @ r)
                                  \<or> (\<exists>p r. toLowerCase host (keywords' c) = p @ ascii ''bmi'' @ r)]
   \<and> filtered host CALC_REGISTRY ([0x00A0, 0x2003] @ ascii ''BMI '')
       = [mk ''bmi'' (ascii ''BMI'') (ascii ''body mass index health'') BMICalculator]
   \<and> filtered host CALC_REGISTRY [0x00A0] = CALC_REGISTRY
   \<and> toLowerCase host (trim [0x212A]) = ascii ''k''
   \<and> map id' (filtered host CALC_REGISTRY [0x212A])
       = [''datediff'', ''temp'', ''length'', ''weight'', ''speed'']"
    using h r n k ne filtered_spec[of host "[0x00A0, 0x2003] @ ascii ''BMI ''" CALC_REGISTRY]
    by (simp add: Let_def)
  then show ?thesis unfolding host_def .
qed

lemma find_Some_first:
  "find P xs = Some x \<Longrightarrow> x \<in> set xs \<and> P x"
  by (induction xs) (auto split: if_splits)

lemma find_None_none: "find P xs = None \<longleftrightarrow> (\<forall>x \<in> set xs. \<not> P x)"
  by (induction xs) auto

text \<open>
  C5. The entry on display: the entry of the filtered list whose id is the active id when
  there is one (the first such); otherwise the first entry of the filtered list; otherwise
  the first entry of the registry. It is defined whenever the registry is not empty, and it
  is always defined for \<open>CALC_REGISTRY\<close>, whatever the query and the host.
\<close>

theorem current_spec:
  "(\<forall>c. find (\<lambda>c. id' c = active) flt = Some c \<longrightarrow>
          current reg flt active = Some c \<and> c \<in> set flt \<and> id' c = active)
   \<and> ((\<forall>c \<in> set flt. id' c \<noteq> active) \<and> flt \<noteq> [] \<longrightarrow> current reg flt active = Some (hd flt))
   \<and> (flt = [] \<and> reg \<noteq> [] \<longrightarrow> current reg flt active = Some (hd reg))
   \<and> (reg \<noteq> [] \<longrightarrow> current reg flt active \<noteq> None)
   \<and> current CALC_REGISTRY (filtered hostLower CALC_REGISTRY query) active \<noteq> None"
proof -
  have 1: "current reg flt active = Some c \<and> c \<in> set flt \<and> id' c = active"
    if "find (\<lambda>c. id' c = active) flt = Some c" for c
    using that find_Some_first[OF that] by (simp add: current_def orElse_def)
  have 2: "current reg flt active = Some (hd flt)"
    if "\<forall>c \<in> set flt. id' c \<noteq> active" "flt \<noteq> []"
  proof -
    from that(1) have "find (\<lambda>c. id' c = active) flt = None"
      by (simp add: find_None_none)
    with that(2) show ?thesis
      by (cases flt) (simp_all add: current_def orElse_def first_def)
  qed
  have 3: "current reg flt active = Some (hd reg)" if "flt = []" "reg \<noteq> []"
    using that by (cases reg) (simp_all add: current_def orElse_def first_def)
  have 4: "current r f active \<noteq> None" if "r \<noteq> []" for r f
    using that by (cases r) (simp_all add: current_def orElse_def first_def split: option.splits)
  have "CALC_REGISTRY \<noteq> []" by (simp add: CALC_REGISTRY_def)
  then have 5: "current CALC_REGISTRY (filtered hostLower CALC_REGISTRY query) active \<noteq> None"
    by (rule 4)
  show ?thesis using 1 2 3 4[of reg flt] 5 by blast
qed

theorem current_spec_witness:
  "find (\<lambda>c. id' c = ''gst'') (filtered (\<lambda>s. s) CALC_REGISTRY (ascii ''tax''))
     = Some (mk ''gst'' (ascii ''GST/VAT'') (ascii ''tax vat gst inclusive exclusive'') GSTCalculator)
   \<and> current CALC_REGISTRY (filtered (\<lambda>s. s) CALC_REGISTRY (ascii ''tax'')) ''gst''
     = Some (mk ''gst'' (ascii ''GST/VAT'') (ascii ''tax vat gst inclusive exclusive'') GSTCalculator)
   \<and> current CALC_REGISTRY (filtered (\<lambda>s. s) CALC_REGISTRY (ascii ''bmi'')) ''gst''
     = Some (hd (filtered (\<lambda>s. s) CALC_REGISTRY (ascii ''bmi'')))
   \<and> current CALC_REGISTRY (filtered (\<lambda>s. s) CALC_REGISTRY (ascii ''zzz'')) ''gst''
     = Some (hd CALC_REGISTRY)"
proof -
  have f: "find (\<lambda>c. id' c = ''gst'') (filtered (\<lambda>s. s) CALC_REGISTRY (ascii ''tax''))
     = Some (mk ''gst'' (ascii ''GST/VAT'') (ascii ''tax vat gst inclusive exclusive'') GSTCalculator)"
    by code_simp
  have g: "\<forall>c \<in> set (filtered (\<lambda>s. s) CALC_REGISTRY (ascii ''bmi'')). id' c \<noteq> ''gst''"
    "filtered (\<lambda>s. s) CALC_REGISTRY (ascii ''bmi'') \<noteq> []"
    by code_simp+
  have h: "filtered (\<lambda>s. s) CALC_REGISTRY (ascii ''zzz'') = []" "CALC_REGISTRY \<noteq> []"
    by code_simp+
  show ?thesis
    using f g h
      current_spec[of "''gst''" "filtered (\<lambda>s. s) CALC_REGISTRY (ascii ''tax'')" CALC_REGISTRY
        "\<lambda>s. s" "ascii ''q''"]
      current_spec[of "''gst''" "filtered (\<lambda>s. s) CALC_REGISTRY (ascii ''bmi'')" CALC_REGISTRY
        "\<lambda>s. s" "ascii ''q''"]
      current_spec[of "''gst''" "filtered (\<lambda>s. s) CALC_REGISTRY (ascii ''zzz'')" CALC_REGISTRY
        "\<lambda>s. s" "ascii ''q''"]
    by blast
qed

section \<open>Rounding: proofs\<close>

lemma pow2_powi: "pow2 k = 2 powi k"
  by (simp add: pow2_def power_int_def field_simps)

lemma pow2_pos [simp]: "0 < pow2 k"
  by (simp add: pow2_powi)

lemma pow2_nonneg [simp]: "0 \<le> pow2 k"
  using pow2_pos[of k] by (simp only: less_imp_le)

lemma pow2_add: "pow2 (a + b) = pow2 a * pow2 b"
  by (simp add: pow2_powi power_int_add)

lemma pow2_diff: "pow2 (a - b) = pow2 a / pow2 b"
  by (simp add: pow2_powi power_int_diff)

lemma pow2_mono: "a \<le> b \<Longrightarrow> pow2 a \<le> pow2 b"
  by (simp add: pow2_powi power_int_increasing)

lemma pow2_strict_mono: "a < b \<Longrightarrow> pow2 a < pow2 b"
  by (simp add: pow2_powi power_int_strict_increasing)

lemma pow2_less_iff [simp]: "pow2 a < pow2 b \<longleftrightarrow> a < b"
  using pow2_mono[of b a] pow2_strict_mono[of a b] by (auto simp: not_le[symmetric])

lemma pow2_le_iff [simp]: "pow2 a \<le> pow2 b \<longleftrightarrow> a \<le> b"
  using pow2_mono[of a b] pow2_strict_mono[of b a] by (auto simp: not_less[symmetric])

lemma pow2_0 [simp]: "pow2 0 = 1"
  by (simp add: pow2_def)

lemma int_less_pow2: "(n::int) < 2 ^ k \<Longrightarrow> (of_int n :: rat) + 1 \<le> 2 ^ k"
proof -
  assume "n < 2 ^ k"
  then have "n + 1 \<le> 2 ^ k" by simp
  then have "(of_int (n + 1) :: rat) \<le> of_int (2 ^ k)" by (simp only: of_int_le_iff)
  then show ?thesis by simp
qed

lemma ilog2_bounds:
  assumes "0 < q"
  shows "pow2 (ilog2 q) \<le> q" and "q < pow2 (ilog2 q + 1)"
proof -
  have "pow2 (ilog2 q) \<le> q \<and> q < pow2 (ilog2 q + 1)"
  proof (cases "1 \<le> q")
    case True
    define n where "n = \<lfloor>q\<rfloor>"
    have n: "0 < n" "of_int n \<le> q" "q < of_int n + 1"
      using True floor_correct[of q] by (simp_all add: n_def)
    have b: "1 \<le> bitlen n" using n(1) by (simp add: bitlen_alt_def)
    from bitlen_bounds[OF n(1)]
    have lo: "2 ^ nat (bitlen n - 1) \<le> n" and hi: "n < 2 ^ nat (bitlen n)" by auto
    have e: "ilog2 q = bitlen n - 1" using True by (simp add: ilog2_def n_def)
    have "pow2 (bitlen n - 1) = 2 ^ nat (bitlen n - 1)"
      using b by (simp add: pow2_def)
    also have "\<dots> \<le> of_int n"
      using lo of_int_le_iff[of "2 ^ nat (bitlen n - 1)" n, where ?'a = rat] by simp
    also have "\<dots> \<le> q" by (rule n(2))
    finally have 1: "pow2 (ilog2 q) \<le> q" using e by simp
    have "q < of_int n + 1" by (rule n(3))
    also have "\<dots> \<le> 2 ^ nat (bitlen n)" using hi by (rule int_less_pow2)
    also have "\<dots> = pow2 (bitlen n)" using b by (simp add: pow2_def)
    finally have 2: "q < pow2 (ilog2 q + 1)" using e by simp
    from 1 2 show ?thesis ..
  next
    case False
    define r where "r = 1 / q"
    define m where "m = \<lceil>r\<rceil> - 1"
    have r1: "1 < r" using False assms by (simp add: r_def)
    have m: "0 < m" "of_int m < r" "r \<le> of_int m + 1"
      using r1 ceiling_correct[of r] by (simp_all add: m_def less_ceiling_iff)
    from bitlen_bounds[OF m(1)]
    have lo: "2 ^ nat (bitlen m - 1) \<le> m" and hi: "m < 2 ^ nat (bitlen m)" by auto
    have b: "1 \<le> bitlen m" using m(1) by (simp add: bitlen_alt_def)
    have e: "ilog2 q = - bitlen m" using False by (simp add: ilog2_def m_def r_def)
    have q: "q = 1 / r" using assms by (simp add: r_def)
    have "r \<le> of_int m + 1" by (rule m(3))
    also have "\<dots> \<le> 2 ^ nat (bitlen m)" using hi by (rule int_less_pow2)
    finally have "r \<le> 2 ^ nat (bitlen m)" .
    then have "1 / 2 ^ nat (bitlen m) \<le> 1 / r" using r1 by (simp add: field_simps)
    moreover have "pow2 (- bitlen m) = 1 / 2 ^ nat (bitlen m)" using b by (simp add: pow2_def)
    ultimately have 1: "pow2 (ilog2 q) \<le> q" using e q by simp
    have "(2::rat) ^ nat (bitlen m - 1) \<le> of_int m"
      using lo of_int_le_iff[of "2 ^ nat (bitlen m - 1)" m, where ?'a = rat] by simp
    then have "2 ^ nat (bitlen m - 1) < r" using m(2) by (rule le_less_trans)
    then have "1 / r < 1 / 2 ^ nat (bitlen m - 1)" using r1 by (simp add: field_simps)
    moreover have "pow2 (- bitlen m + 1) = 1 / 2 ^ nat (bitlen m - 1)"
      using b by (cases "bitlen m = 1") (simp_all add: pow2_def)
    ultimately have 2: "q < pow2 (ilog2 q + 1)" using e q by simp
    from 1 2 show ?thesis ..
  qed
  then show "pow2 (ilog2 q) \<le> q" and "q < pow2 (ilog2 q + 1)" by simp_all
qed

lemma roundEven_err: "\<bar>of_int (roundEven r) - r\<bar> \<le> 1 / 2"
proof -
  have "of_int \<lfloor>r\<rfloor> \<le> r" "r < of_int \<lfloor>r\<rfloor> + 1"
    using floor_correct[of r] by simp_all
  then show ?thesis
    by (auto simp: roundEven_def roundAt_def tieEven_def abs_le_iff)
qed

lemma roundEven_of_int [simp]: "roundEven (of_int n) = n"
  by (simp add: roundEven_def roundAt_def tieEven_def)

lemma roundEven_ge: "of_int k \<le> r \<Longrightarrow> k \<le> roundEven r"
proof -
  assume "of_int k \<le> r"
  then have "k \<le> \<lfloor>r\<rfloor>" by (simp add: le_floor_iff)
  moreover have "\<lfloor>r\<rfloor> \<le> roundEven r"
    by (simp add: roundEven_def roundAt_def tieEven_def)
  ultimately show ?thesis by simp
qed

lemma quantize_err:
  assumes "0 < u"
  shows "\<bar>quantize q u - q\<bar> \<le> u / 2"
proof -
  have "quantize q u - q = (of_int (roundEven (q / u)) - q / u) * u"
    using assms by (simp add: quantize_def field_simps)
  then have "\<bar>quantize q u - q\<bar> = \<bar>of_int (roundEven (q / u)) - q / u\<bar> * u"
    using assms by (simp add: abs_mult)
  also have "\<dots> \<le> (1 / 2) * u"
    using roundEven_err[of "q / u"] assms by (intro mult_right_mono) simp_all
  finally show ?thesis by simp
qed

lemma pow2_numeral: "pow2 1024 = 2 ^ 1024" "pow2 1023 = 2 ^ 1023" "pow2 53 = 2 ^ 53" "pow2 52 = 2 ^ 52"
  by (simp_all add: pow2_def)

text \<open>Rounding in the normal range: a finite result, within half a unit in the last place.\<close>

lemma fround_normal:
  assumes lo: "pow2 (- 1022) \<le> q" and hi: "q \<le> pow2 1023"
  shows "\<exists>v. fround s q = Fin s v \<and> \<bar>v - q\<bar> \<le> q / 2 ^ 53"
proof -
  have pos: "0 < q" using lo pow2_pos[of "- 1022"] by linarith
  define e where "e = ilog2 q"
  have e1: "pow2 e \<le> q" and e2: "q < pow2 (e + 1)"
    using ilog2_bounds[OF pos] by (simp_all add: e_def)
  have "pow2 (- 1022) < pow2 (e + 1)" using lo e2 by linarith
  then have ege: "- 1022 \<le> e" by simp
  define u where "u = pow2 (e - 52)"
  have u: "ulp q = u" using ege by (simp add: ulp_def u_def e_def max_def)
  have upos: "0 < u" by (simp add: u_def)
  define v where "v = quantize q u"
  have "u / 2 = pow2 e / 2 ^ 53"
    by (simp add: u_def pow2_diff pow2_numeral)
  also have "\<dots> \<le> q / 2 ^ 53" using e1 by (simp add: divide_right_mono)
  finally have half: "u / 2 \<le> q / 2 ^ 53" .
  have err: "\<bar>v - q\<bar> \<le> q / 2 ^ 53"
    using quantize_err[OF upos, of q] half by (simp add: v_def)
  have "v \<le> q + q / 2 ^ 53" using err by linarith
  also have "\<dots> \<le> pow2 1023 + pow2 1023 / 2 ^ 53"
    using hi by (intro add_mono divide_right_mono) simp_all
  also have "\<dots> < pow2 1024" by (simp add: pow2_numeral)
  finally have "\<not> pow2 1024 \<le> v" by simp
  then have "fround s q = Fin s v"
    using pos u by (simp add: fround_def pack_def v_def)
  with err show ?thesis by blast
qed

text \<open>An integer below \<open>2\<^sup>5\<^sup>3\<close> is a double.\<close>

lemma fround_of_int:
  assumes "0 \<le> n" and "n < 2 ^ 53"
  shows "fround s (of_int n) = Fin s (of_int n)"
proof (cases "n = 0")
  case True
  then show ?thesis by (simp add: fround_def)
next
  case False
  define q :: rat where "q = of_int n"
  have q1: "1 \<le> q" using assms False by (simp add: q_def)
  then have pos: "0 < q" by simp
  define e where "e = ilog2 q"
  have e1: "pow2 e \<le> q" and e2: "q < pow2 (e + 1)"
    using ilog2_bounds[OF pos] by (simp_all add: e_def)
  have "q < 2 ^ 53"
    using assms(2) of_int_less_iff[of n "2 ^ 53", where ?'a = rat] by (simp add: q_def)
  then have "pow2 e < pow2 53" using e1 by (simp add: pow2_numeral)
  then have e53: "e \<le> 52" by simp
  have "pow2 0 < pow2 (e + 1)" using q1 e2 by simp
  then have "0 < e + 1" by (simp only: pow2_less_iff)
  then have e0: "0 \<le> e" by simp
  define k where "k = nat (52 - e)"
  have u: "ulp q = 1 / 2 ^ k"
    using e0 e53 by (simp add: ulp_def e_def[symmetric] max_def pow2_def k_def)
  have d: "q / (1 / 2 ^ k) = of_int (n * 2 ^ k)" by (simp add: q_def)
  have "quantize q (ulp q) = of_int (roundEven (q / (1 / 2 ^ k))) * (1 / 2 ^ k)"
    by (simp only: quantize_def u)
  also have "\<dots> = of_int (n * 2 ^ k) * (1 / 2 ^ k)"
    by (simp only: d roundEven_of_int)
  also have "\<dots> = q" by (simp add: q_def)
  finally have "quantize q (ulp q) = q" .
  moreover have "\<not> pow2 1024 \<le> q" using \<open>q < 2 ^ 53\<close> by (simp add: pow2_numeral)
  ultimately show ?thesis using pos by (simp add: fround_def pack_def q_def)
qed

text \<open>From \<open>2\<^sup>1\<^sup>0\<^sup>2\<^sup>4\<close> on, rounding overflows.\<close>

lemma fround_overflow:
  assumes "pow2 1024 \<le> q"
  shows "fround s q = Infinity s"
proof -
  have pos: "0 < q" using assms pow2_pos[of 1024] by linarith
  define e where "e = ilog2 q"
  have e1: "pow2 e \<le> q" and e2: "q < pow2 (e + 1)"
    using ilog2_bounds[OF pos] by (simp_all add: e_def)
  have "pow2 1024 < pow2 (e + 1)" using assms e2 by linarith
  then have ege: "1024 \<le> e" by simp
  define u where "u = pow2 (e - 52)"
  have u: "ulp q = u" using ege by (simp add: ulp_def u_def e_def max_def)
  have upos: "0 < u" by (simp add: u_def)
  have "of_int (2 ^ 52) * u = pow2 e" by (simp add: u_def pow2_diff pow2_numeral)
  then have "of_int (2 ^ 52) \<le> q / u" using e1 upos by (simp add: field_simps)
  then have "2 ^ 52 \<le> roundEven (q / u)" by (rule roundEven_ge)
  then have "(of_int (2 ^ 52) :: rat) \<le> of_int (roundEven (q / u))" by (simp only: of_int_le_iff)
  then have "of_int (2 ^ 52) * u \<le> quantize q u"
    using upos by (simp add: quantize_def)
  then have "pow2 e \<le> quantize q u"
    using \<open>of_int (2 ^ 52) * u = pow2 e\<close> by simp
  moreover have "pow2 1024 \<le> pow2 e" using ege by simp
  ultimately have "pow2 1024 \<le> quantize q u" by linarith
  then show ?thesis using pos u by (simp add: fround_def pack_def)
qed

lemma eta_ge1: "1 \<le> eta ^ n"
  by (simp add: eta_def one_le_power)

lemma eta_pos: "0 < eta ^ n"
  using eta_ge1[of n] by linarith

lemma near_refl: "0 \<le> a \<Longrightarrow> near n a a"
  using eta_ge1[of n] by (simp add: near_def mult_le_cancel_left1)

lemma near_trans:
  assumes "near n a b" and "near m b c" and l: "l = n + m"
  shows "near l a c"
proof -
  have "a \<le> b * eta ^ n" using assms(1) by (simp add: near_def)
  also have "\<dots> \<le> (c * eta ^ m) * eta ^ n"
    using assms(2) eta_pos[of n] by (simp add: near_def)
  finally have 1: "a \<le> c * eta ^ (n + m)" by (simp add: power_add mult_ac)
  have "c \<le> b * eta ^ m" using assms(2) by (simp add: near_def)
  also have "\<dots> \<le> (a * eta ^ n) * eta ^ m"
    using assms(1) eta_pos[of m] by (simp add: near_def)
  finally have 2: "c \<le> a * eta ^ (n + m)" by (simp add: power_add mult_ac)
  from 1 2 show ?thesis by (simp add: near_def l)
qed

lemma near_mult:
  assumes "near n a b" and "0 \<le> k"
  shows "near n (a * k) (b * k)"
proof -
  have "a * k \<le> (b * eta ^ n) * k" "b * k \<le> (a * eta ^ n) * k"
    using assms by (simp_all add: near_def mult_right_mono)
  then show ?thesis by (simp add: near_def mult_ac)
qed

lemma near_div:
  assumes "near n a b" and "0 < k"
  shows "near n (a / k) (b / k)"
  using near_mult[OF assms(1), of "1 / k"] assms(2) by simp

lemma fround_near:
  assumes "safe q"
  shows "\<exists>v. fround s q = Fin s v \<and> near 1 q v"
proof -
  from assms have lo: "pow2 (- 1022) \<le> q" and hi: "q \<le> pow2 1023" by (simp_all add: safe_def)
  from fround_normal[OF lo hi, of s] obtain v where
    v: "fround s q = Fin s v" and err: "\<bar>v - q\<bar> \<le> q / 2 ^ 53" by blast
  have pos: "0 < q" using lo pow2_pos[of "- 1022"] by linarith
  have a: "v \<le> q + q / 2 ^ 53" and b: "q - q / 2 ^ 53 \<le> v" using err by linarith+
  have 1: "v \<le> q * eta" using a pos by (simp add: eta_def field_simps)
  have "q \<le> (q - q / 2 ^ 53) * eta" using pos by (simp add: eta_def field_simps)
  also have "\<dots> \<le> v * eta" using b by (simp add: eta_def mult_right_mono)
  finally have 2: "q \<le> v * eta" .
  from 1 2 v show ?thesis by (auto simp: near_def)
qed

lemma fmul_near:
  assumes "safe (q * c)"
  shows "\<exists>v. fmul (Fin s q) (Fin False c) = Fin s v \<and> near 1 (q * c) v"
  using fround_near[OF assms, of s] by simp

lemma fdiv_near:
  assumes "safe (q / c)"
  shows "\<exists>v. fdiv (Fin s q) (Fin False c) = Fin s v \<and> near 1 (q / c) v"
proof -
  have "0 < q / c" using assms pow2_pos[of "- 1022"] unfolding safe_def by linarith
  then have "c \<noteq> 0" by auto
  then show ?thesis using fround_near[OF assms, of s] by simp
qed

lemma near_bound:
  assumes "near n q v" and "0 < q"
  shows "\<bar>v - q\<bar> \<le> q * (eta ^ n - 1)"
proof -
  define E where "E = eta ^ n"
  have E: "1 \<le> E" "0 < E" using eta_ge1[of n] eta_pos[of n] by (simp_all add: E_def)
  have a: "q \<le> v * E" and b: "v \<le> q * E" using assms(1) by (simp_all add: near_def E_def)
  have "q / E \<le> v" using a E(2) by (simp add: field_simps)
  moreover have "q - q * (E - 1) \<le> q / E"
  proof -
    have "(2 - E) * E \<le> 1"
    proof -
      have "0 \<le> (E - 1) * (E - 1)" by simp
      then show ?thesis by (simp add: algebra_simps)
    qed
    then have "q * ((2 - E) * E) \<le> q * 1" using assms(2) by (intro mult_left_mono) simp_all
    then have "q * (2 - E) \<le> q / E" using E(2) by (simp add: field_simps)
    then show ?thesis by (simp add: algebra_simps)
  qed
  ultimately have "q - q * (E - 1) \<le> v" by linarith
  moreover have "v \<le> q + q * (E - 1)" using b by (simp add: algebra_simps)
  ultimately show ?thesis unfolding E_def[symmetric] by linarith
qed

lemma eta_small: "eta ^ 2 - 1 \<le> 1 / 2 ^ 50" "eta ^ 4 - 1 \<le> 1 / 2 ^ 49"
  by (simp_all add: eta_def power_divide)

lemma near_bound2:
  assumes "near 2 q v" and "0 < q"
  shows "\<bar>v - q\<bar> \<le> q / 2 ^ 50"
proof -
  have "q * (eta ^ 2 - 1) \<le> q * (1 / 2 ^ 50)"
    using assms(2) eta_small(1) by (intro mult_left_mono) simp_all
  with near_bound[OF assms] show ?thesis by simp
qed

lemma near_bound4:
  assumes "near 4 q v" and "0 < q"
  shows "\<bar>v - q\<bar> \<le> q / 2 ^ 49"
proof -
  have "q * (eta ^ 4 - 1) \<le> q * (1 / 2 ^ 49)"
    using assms(2) eta_small(2) by (intro mult_left_mono) simp_all
  with near_bound[OF assms] show ?thesis by simp
qed

lemma lit_values:
  "lit 1000 = Fin False 1000" "lit 100 = Fin False 100" "lit 60 = Fin False 60"
  "lit 3600 = Fin False 3600" "lit 86400 = Fin False 86400"
  "lit 12 = Fin False 12" "lit 1 = Fin False 1"
  using fround_of_int[of 1000 False] fround_of_int[of 100 False] fround_of_int[of 60 False]
    fround_of_int[of 3600 False] fround_of_int[of 86400 False] fround_of_int[of 12 False]
    fround_of_int[of 1 False]
  by (simp_all add: lit_def)


lemma inRange_pos: "inRange m x \<Longrightarrow> 0 < x"
  using pow2_pos[of "- m"] unfolding inRange_def by linarith

lemma inRange_safe: "inRange m x \<Longrightarrow> m \<le> 1022 \<Longrightarrow> safe x"
proof -
  assume h: "inRange m x" "m \<le> 1022"
  have "pow2 (- 1022) \<le> pow2 (- m)" "pow2 m \<le> pow2 1023" using h(2) by simp_all
  then show ?thesis using h(1) unfolding inRange_def safe_def by linarith
qed

lemma inRange_mult:
  assumes "inRange m x" and "inRange n k"
  shows "inRange (m + n) (x * k)"
proof -
  have x: "pow2 (- m) \<le> x" "x \<le> pow2 m" and k: "pow2 (- n) \<le> k" "k \<le> pow2 n"
    using assms by (simp_all add: inRange_def)
  have pos: "0 \<le> x" "0 \<le> k"
    using inRange_pos[OF assms(1)] inRange_pos[OF assms(2)] by simp_all
  have "pow2 (- m) * pow2 (- n) \<le> x * k"
    using x(1) k(1) pos by (intro mult_mono) simp_all
  moreover have "x * k \<le> pow2 m * pow2 n"
    using x(2) k(2) pos by (intro mult_mono) simp_all
  ultimately show ?thesis
    using pow2_add[of "- m" "- n"] pow2_add[of m n] by (simp add: inRange_def)
qed

lemma inRange_inverse:
  assumes "inRange n k"
  shows "inRange n (1 / k)"
proof -
  have k: "pow2 (- n) \<le> k" "k \<le> pow2 n" "0 < k"
    using assms inRange_pos[OF assms] by (simp_all add: inRange_def)
  have p: "pow2 (- n) = 1 / pow2 n" using pow2_diff[of 0 n] by simp
  have "1 / pow2 n \<le> 1 / k" using k by (simp add: frac_le)
  moreover have "1 / k \<le> 1 / pow2 (- n)" using k pow2_pos[of "- n"] by (simp add: frac_le)
  ultimately show ?thesis using p by (simp add: inRange_def)
qed

lemma inRange_div:
  assumes "inRange m x" and "inRange n k"
  shows "inRange (m + n) (x / k)"
  using inRange_mult[OF assms(1) inRange_inverse[OF assms(2)]] by simp

lemma eta4_le2: "n \<le> 4 \<Longrightarrow> eta ^ n \<le> 2"
proof -
  assume "n \<le> 4"
  then have "eta ^ n \<le> eta ^ 4" by (simp add: eta_def power_increasing)
  also have "\<dots> \<le> 2" by (simp add: eta_def power_divide)
  finally show ?thesis .
qed

lemma inRange_near:
  assumes "inRange m x" and "near n x y" and "n \<le> 4"
  shows "inRange (m + 1) y"
proof -
  have x: "pow2 (- m) \<le> x" "x \<le> pow2 m" "0 < x"
    using assms(1) inRange_pos[OF assms(1)] by (simp_all add: inRange_def)
  have E: "eta ^ n \<le> 2" "0 < eta ^ n" using eta4_le2[OF assms(3)] eta_pos[of n] by simp_all
  have a: "x \<le> y * eta ^ n" and b: "y \<le> x * eta ^ n" using assms(2) by (simp_all add: near_def)
  have ypos: "0 < y"
  proof (rule ccontr)
    assume "\<not> 0 < y"
    then have "y * eta ^ n \<le> 0" using E(2) by (simp add: mult_le_0_iff)
    with a x(3) show False by linarith
  qed
  have "y * eta ^ n \<le> y * 2" using E(1) ypos by (intro mult_left_mono) simp_all
  with a x(1) have 1: "pow2 (- m) / 2 \<le> y" by simp
  have "x * eta ^ n \<le> x * 2" using E(1) x(3) by (intro mult_left_mono) simp_all
  with b x(2) have 2: "y \<le> pow2 m * 2" by linarith
  have "pow2 (- (m + 1)) = pow2 (- m) / 2" using pow2_diff[of "- m" 1] by (simp add: pow2_def)
  moreover have "pow2 (m + 1) = pow2 m * 2" using pow2_add[of m 1] by (simp add: pow2_def)
  ultimately show ?thesis using 1 2 by (simp add: inRange_def)
qed

lemma scaling_id:
  assumes "toBase u = (\<lambda>v. v)" and "fromBase u = (\<lambda>v. v)"
  shows "scaling u 1"
proof -
  have "near 1 q q" if "safe q" for q
  proof -
    have "0 < q" using that pow2_pos[of "- 1022"] unfolding safe_def by linarith
    then show ?thesis by (simp add: near_refl)
  qed
  then show ?thesis using assms by (simp add: scaling_def inRange_def pow2_def)
qed

lemma scaling_mul:
  assumes "inRange 20 c"
    and "toBase u = (\<lambda>v. fmul v (Fin False c))" and "fromBase u = (\<lambda>v. fdiv v (Fin False c))"
  shows "scaling u c"
  using assms fmul_near fdiv_near by (simp add: scaling_def)

lemma scaling_div:
  assumes "inRange 20 c"
    and "toBase u = (\<lambda>v. fdiv v (Fin False c))" and "fromBase u = (\<lambda>v. fmul v (Fin False c))"
  shows "scaling u (1 / c)"
  using assms fmul_near fdiv_near inRange_inverse[OF assms(1)] by (simp add: scaling_def)

lemma roundEven_nonneg: "0 \<le> r \<Longrightarrow> 0 \<le> roundEven r"
  using roundEven_ge[of 0 r] by simp

lemma quantize_nonneg: "0 \<le> q \<Longrightarrow> 0 < u \<Longrightarrow> 0 \<le> quantize q u"
  by (simp add: quantize_def roundEven_nonneg)

text \<open>Below the normal range, a number is rounded to a multiple of \<open>2\<^sup>-\<^sup>1\<^sup>0\<^sup>7\<^sup>4\<close>.\<close>

lemma fround_subnormal:
  assumes "0 < q" and "q < pow2 (- 1022)"
  shows "fround s q = Fin s (quantize q (pow2 (- 1074)))"
proof -
  define e where "e = ilog2 q"
  have "pow2 e \<le> q" using ilog2_bounds(1)[OF assms(1)] by (simp add: e_def)
  then have "pow2 e < pow2 (- 1022)" using assms(2) by linarith
  then have "e < - 1022" by simp
  then have u: "ulp q = pow2 (- 1074)" by (simp add: ulp_def e_def[symmetric] max_def)
  have "\<bar>quantize q (pow2 (- 1074)) - q\<bar> \<le> pow2 (- 1074) / 2" by (rule quantize_err) simp
  then have "quantize q (pow2 (- 1074)) \<le> q + pow2 (- 1074) / 2" by linarith
  moreover have "pow2 (- 1022) \<le> pow2 0" "pow2 (- 1074) \<le> pow2 0" "pow2 1 \<le> pow2 1024"
    by (simp_all only: pow2_le_iff)
  moreover have "pow2 1 = 2" by (simp add: pow2_def)
  ultimately have "quantize q (pow2 (- 1074)) < pow2 1024" using assms(2) by simp
  then have "\<not> pow2 1024 \<le> quantize q (pow2 (- 1074))" by simp
  then show ?thesis using assms(1) u by (simp add: fround_def pack_def)
qed

text \<open>
  Rounding anywhere below the overflow threshold: a finite result, off by at most the
  relative error of the normal range plus half a step of the subnormal range.
\<close>

lemma fround_err:
  assumes "0 \<le> q" and "q \<le> pow2 1023"
  shows "\<exists>v. fround s q = Fin s v \<and> 0 \<le> v \<and> \<bar>v - q\<bar> \<le> q / 2 ^ 53 + pow2 (- 1075)"
proof -
  consider "q = 0" | "0 < q" "q < pow2 (- 1022)" | "pow2 (- 1022) \<le> q"
    using assms(1) by linarith
  then show ?thesis
  proof cases
    case 1
    then show ?thesis by (simp add: fround_def)
  next
    case 2
    define v where "v = quantize q (pow2 (- 1074))"
    have "\<bar>v - q\<bar> \<le> pow2 (- 1074) / 2" unfolding v_def by (rule quantize_err) simp
    moreover have "pow2 (- 1074) / 2 = pow2 (- 1075)"
      using pow2_diff[of "- 1074" 1] by (simp add: pow2_def)
    moreover have "0 \<le> v" using 2(1) by (simp add: v_def quantize_nonneg)
    moreover have "0 \<le> q / 2 ^ 53" using assms(1) by simp
    ultimately have "0 \<le> v \<and> \<bar>v - q\<bar> \<le> q / 2 ^ 53 + pow2 (- 1075)" by linarith
    then show ?thesis using fround_subnormal[OF 2, of s] by (simp add: v_def)
  next
    case 3
    from fround_normal[OF 3 assms(2), of s] obtain v where
      v: "fround s q = Fin s v" "\<bar>v - q\<bar> \<le> q / 2 ^ 53" by blast
    have "q / 2 ^ 53 \<le> q" using assms(1) by (simp add: field_simps)
    then have "0 \<le> v" using v(2) by linarith
    moreover have "\<bar>v - q\<bar> \<le> q / 2 ^ 53 + pow2 (- 1075)"
      using v(2) pow2_nonneg[of "- 1075"] by linarith
    ultimately show ?thesis using v(1) by blast
  qed
qed

lemma nearBy_trans:
  assumes "nearBy f a b" and "nearBy g b c" and "0 \<le> f" and "0 \<le> g"
  shows "nearBy (f * g) a c"
proof -
  have "a \<le> b * f" using assms(1) by (simp add: nearBy_def)
  also have "\<dots> \<le> (c * g) * f" using assms(2,3) by (simp add: nearBy_def mult_right_mono)
  finally have 1: "a \<le> c * (f * g)" by (simp add: mult_ac)
  have "c \<le> b * g" using assms(2) by (simp add: nearBy_def)
  also have "\<dots> \<le> (a * f) * g" using assms(1,4) by (simp add: nearBy_def mult_right_mono)
  finally have 2: "c \<le> a * (f * g)" by (simp add: mult_ac)
  from 1 2 show ?thesis by (simp add: nearBy_def)
qed

lemma nearBy_divide:
  assumes ab: "nearBy f a b" and cd: "nearBy g c d"
    and pos: "0 < c" "0 < d" "0 \<le> a" "0 \<le> b" "0 < f" "0 < g"
  shows "nearBy (f * g) (a / c) (b / d)"
proof -
  have a: "a \<le> b * f" and b: "b \<le> a * f" using ab by (simp_all add: nearBy_def)
  have c: "c \<le> d * g" and d: "d \<le> c * g" using cd by (simp_all add: nearBy_def)
  have "a / c \<le> (b * f) / c" using a pos(1) by (simp add: divide_right_mono)
  also have "\<dots> \<le> (b * f) / (d / g)"
  proof (rule divide_left_mono)
    show "d / g \<le> c" using d pos(6) by (simp add: field_simps)
    show "0 \<le> b * f" using pos(4,5) by simp
    show "0 < c * (d / g)" using pos(1,2,6) by simp
  qed
  finally have 1: "a / c \<le> b / d * (f * g)" using pos by (simp add: field_simps)
  have "b / d \<le> (a * f) / d" using b pos(2) by (simp add: divide_right_mono)
  also have "\<dots> \<le> (a * f) / (c / g)"
  proof (rule divide_left_mono)
    show "c / g \<le> d" using c pos(6) by (simp add: field_simps)
    show "0 \<le> a * f" using pos(3,5) by simp
    show "0 < d * (c / g)" using pos(1,2,6) by simp
  qed
  finally have 2: "b / d \<le> a / c * (f * g)" using pos by (simp add: field_simps)
  from 1 2 show ?thesis by (simp add: nearBy_def)
qed

lemma nearBy_bound:
  assumes "nearBy F q v" and "0 < q" and "1 \<le> F"
  shows "\<bar>v - q\<bar> \<le> q * (F - 1)"
proof -
  have E: "0 < F" using assms(3) by linarith
  have a: "q \<le> v * F" and b: "v \<le> q * F" using assms(1) by (simp_all add: nearBy_def)
  have "q / F \<le> v" using a E by (simp add: field_simps)
  moreover have "q - q * (F - 1) \<le> q / F"
  proof -
    have "(2 - F) * F \<le> 1"
    proof -
      have "0 \<le> (F - 1) * (F - 1)" by simp
      then show ?thesis by (simp add: algebra_simps)
    qed
    then have "q * ((2 - F) * F) \<le> q * 1" using assms(2) by (intro mult_left_mono) simp_all
    then have "q * (2 - F) \<le> q / F" using E by (simp add: field_simps)
    then show ?thesis by (simp add: algebra_simps)
  qed
  ultimately have "q - q * (F - 1) \<le> v" by linarith
  moreover have "v \<le> q + q * (F - 1)" using b by (simp add: algebra_simps)
  ultimately show ?thesis by linarith
qed

section \<open>The numeric helpers: proofs\<close>

lemma toNum_finite [simp]: "toNum (JNum (Fin s q)) d = Fin s q"
  by (simp add: toNum_def coerce_def)

text \<open>Without a default, \<open>toNum\<close> gives a finite number, which \<open>toNum\<close> leaves as it is.\<close>

lemma toNum_idem: "toNum (JNum (toNum v None)) None = toNum v None"
  by (simp add: toNum_def coerce_def orDefault_def)

text \<open>
  C6, as amended. \<open>toNum\<close> is a total function of its input (a number, or a string,
  \<open>undefined\<close> or \<open>null\<close>) and of the default: a number is taken as it is, anything else is
  turned into text, its commas are removed and the text is parsed by \<open>parseFloat\<close>; the result
  is that number when it is finite and the default otherwise, the default being \<open>0\<close> when
  none is given. So without a default, or with a finite one, the result is always finite,
  and commas anywhere in the text do not change it.
\<close>

theorem toNum_spec:
  "coerce (JNum x) = x
   \<and> coerce (JStr s) = parseFloat (filter (\<lambda>c. c \<noteq> codeUnit CHR '','') s)
   \<and> (isFinite (coerce v) \<longrightarrow> toNum v d = coerce v)
   \<and> (\<not> isFinite (coerce v) \<longrightarrow> toNum v None = Fin False 0 \<and> toNum v (Some y) = y)
   \<and> isFinite (toNum v None)
   \<and> (isFinite y \<longrightarrow> isFinite (toNum v (Some y)))
   \<and> toNum (JStr (a @ ascii '','' @ b)) d = toNum (JStr (a @ b)) d"
proof -
  have "coerce (JStr (a @ ascii '','' @ b)) = coerce (JStr (a @ b))"
    by (simp add: coerce_def removeCommas_def ascii_def)
  then have "toNum (JStr (a @ ascii '','' @ b)) d = toNum (JStr (a @ b)) d"
    by (simp add: toNum_def)
  then show ?thesis
    by (simp add: coerce_def removeCommas_def toNum_def orDefault_def)
qed

theorem toNum_spec_witness:
  "coerce (JStr (ascii ''1,234.5'')) = Fin False (2469 / 2)
   \<and> toNum (JStr (ascii ''1,234.5'')) None = Fin False (2469 / 2)
   \<and> \<not> isFinite (coerce (JStr (ascii ''abc'')))
   \<and> toNum (JStr (ascii ''abc'')) None = Fin False 0
   \<and> toNum (JStr (ascii ''abc'')) (Some (Fin False 7)) = Fin False 7
   \<and> isFinite (toNum (JNum (Infinity True)) (Some (Fin False 7)))
   \<and> coerce (JStr ([0x00A0, 0x3000] @ ascii ''5'')) = Fin False 5
   \<and> toNum (JStr ([0x00A0, 0x3000] @ ascii ''5'')) None = Fin False 5"
proof -
  have a: "coerce (JStr (ascii ''1,234.5'')) = Fin False (2469 / 2)" by code_simp
  have b: "\<not> isFinite (coerce (JStr (ascii ''abc'')))" by code_simp
  have c: "isFinite (Fin False 7)" by simp
  have e: "coerce (JStr ([0x00A0, 0x3000] @ ascii ''5'')) = Fin False 5" by code_simp
  show ?thesis
    using a b c e
      toNum_spec[of "Fin False 0" "ascii ''1,234.5''" "JStr (ascii ''1,234.5'')" None "Fin False 7" "[]" "[]"]
      toNum_spec[of "Fin False 0" "ascii ''abc''" "JStr (ascii ''abc'')" None "Fin False 7" "[]" "[]"]
      toNum_spec[of "Fin False 0" "ascii ''abc''" "JNum (Infinity True)" None "Fin False 7" "[]" "[]"]
      toNum_spec[of "Fin False 0" "ascii ''abc''" "JStr ([0x00A0, 0x3000] @ ascii ''5'')" None "Fin False 7" "[]" "[]"]
    by simp
qed

text \<open>
  The default is handed back as it is. With the default \<open>NaN\<close>, a text that is not a number
  gives \<open>NaN\<close>, and with the default \<open>-Infinity\<close> an infinite number gives \<open>-Infinity\<close>:
  neither is a definite number.
\<close>

theorem toNum_default_counterexample:
  "toNum (JStr (ascii ''abc'')) (Some NaN) = NaN
   \<and> \<not> isFinite (toNum (JStr (ascii ''abc'')) (Some NaN))
   \<and> toNum (JNum (Infinity False)) (Some (Infinity True)) = Infinity True"
  by code_simp

text \<open>
  C7. \<open>fmt\<close> returns \<open>-\<close> when its value is \<open>undefined\<close>, \<open>null\<close> or \<open>NaN\<close>, whatever the
  number of decimals and the locale.
\<close>

theorem fmt_dash:
  "fmt toLocaleString JUndefined d = ''-''
   \<and> fmt toLocaleString JNull d = ''-''
   \<and> fmt toLocaleString (JNum NaN) d = ''-''
   \<and> fmt toLocaleString (JNum NaN) None = ''-''
   \<and> fmt toLocaleString JUndefined None = ''-''"
  by (simp add: fmt_def)

text \<open>
  C10. \<open>fmt\<close> returns \<open>-\<close> for both infinities as well, and more generally whenever the
  value converted by \<open>Number\<close> is not finite: the locale string is produced for finite
  numbers only.
\<close>

theorem fmt_infinite:
  "fmt toLocaleString (JNum (Infinity False)) d = ''-''
   \<and> fmt toLocaleString (JNum (Infinity True)) d = ''-''
   \<and> (\<not> isFinite (Number n) \<longrightarrow> fmt toLocaleString n d = ''-'')
   \<and> (fmt toLocaleString n d \<noteq> ''-'' \<longrightarrow>
        isFinite (Number n) \<and> fmt toLocaleString n d = toLocaleString (Number n) (orTwo d))"
  by (simp add: fmt_def)

theorem fmt_infinite_witness:
  "\<not> isFinite (Number (JStr (ascii ''-Infinity'')))
   \<and> fmt (\<lambda>s d. ''1.5'') (JStr (ascii ''-Infinity'')) None = ''-''
   \<and> fmt (\<lambda>s d. ''1.5'') (JNum (Fin False (3 / 2))) None \<noteq> ''-''
   \<and> isFinite (Number (JNum (Fin False (3 / 2))))"
proof -
  have a: "\<not> isFinite (Number (JStr (ascii ''-Infinity'')))" by code_simp
  have b: "fmt (\<lambda>s d. ''1.5'') (JNum (Fin False (3 / 2))) None \<noteq> ''-''" by code_simp
  show ?thesis
    using a b
      fmt_infinite[of "\<lambda>s d. ''1.5''" None "JStr (ascii ''-Infinity'')"]
      fmt_infinite[of "\<lambda>s d. ''1.5''" None "JNum (Fin False (3 / 2))"]
    by simp
qed

section \<open>Calculators: proofs\<close>

lemma find_uid_None: "find (\<lambda>u. uid u = i) units = None \<longleftrightarrow> i \<notin> set (map uid units)"
  by (induction units) auto

text \<open>
  C8. In each of the five conversion tables, when the id of the unit to convert from or
  the id of the unit to convert to is not in the table, the converter's result is the
  value \<open>NaN\<close>.
\<close>

theorem convert_unknown_unit:
  assumes "units \<in> set domains"
    and "from \<notin> set (map uid units) \<or> to \<notin> set (map uid units)"
  shows "convert units val from to = NaN"
proof (cases "from \<in> set (map uid units)")
  case False
  then have "find (\<lambda>u. uid u = from) units = None"
    by (simp add: find_uid_None)
  then show ?thesis by (simp add: convert_def)
next
  case True
  with assms(2) have "to \<notin> set (map uid units)" by blast
  then have "find (\<lambda>u. uid u = to) units = None"
    by (simp add: find_uid_None)
  then show ?thesis by (simp add: convert_def split: option.splits)
qed

theorem convert_unknown_unit_witness:
  "timeUnits \<in> set domains
   \<and> ''week'' \<notin> set (map uid timeUnits)
   \<and> convert timeUnits (JNum (Fin False 5)) ''min'' ''week'' = NaN
   \<and> convert timeUnits (JNum (Fin False 5)) ''week'' ''min'' = NaN"
proof -
  have d: "timeUnits \<in> set domains" by (simp add: domains_def)
  have n: "''week'' \<notin> set (map uid timeUnits)" by (simp add: timeUnits_def)
  show ?thesis
    using d n
      convert_unknown_unit[OF d, of "''min''" "''week''" "JNum (Fin False 5)"]
      convert_unknown_unit[OF d, of "''week''" "''min''" "JNum (Fin False 5)"]
    by simp
qed

lemma lit_0: "lit 0 = Fin False 0"
  by (simp add: lit_def fround_def)

text \<open>
  C2. In the EMI calculator, when the monthly rate \<open>toNum(r)/12/100\<close> is zero and the
  number of months is positive, the instalment is the quotient \<open>principal / months\<close> itself,
  the total payment is the principal and the interest is \<open>0\<close>.
\<close>

theorem loan_zero_rate:
  assumes "strictEq (monthlyR r) (lit 0)"
    and "positive (monthsOf tenureType t)"
  shows "emi (loanOut pow p r tenureType t) = fdiv (toNum p None) (monthsOf tenureType t)
         \<and> loan.total (loanOut pow p r tenureType t) = toNum p None
         \<and> interest (loanOut pow p r tenureType t) = Fin False 0
         \<and> months (loanOut pow p r tenureType t) = monthsOf tenureType t"
  using assms(1) by (simp add: loanOut_def lit_0)

theorem loan_zero_rate_witness:
  "strictEq (monthlyR (JStr (ascii ''0''))) (lit 0)
   \<and> positive (monthsOf ''Years'' (JNum (Fin False 5)))
   \<and> monthsOf ''Years'' (JNum (Fin False 5)) = Fin False 60
   \<and> emi (loanOut (\<lambda>a b. NaN) (JNum (Fin False 500000)) (JStr (ascii ''0'')) ''Years'' (JNum (Fin False 5)))
       = Fin False (4581298449066667 / 549755813888)
   \<and> loan.total (loanOut (\<lambda>a b. NaN) (JNum (Fin False 500000)) (JStr (ascii ''0'')) ''Years'' (JNum (Fin False 5)))
       = Fin False 500000
   \<and> interest (loanOut (\<lambda>a b. NaN) (JNum (Fin False 500000)) (JStr (ascii ''0'')) ''Years'' (JNum (Fin False 5)))
       = Fin False 0"
proof -
  have z: "strictEq (monthlyR (JStr (ascii ''0''))) (lit 0)" by code_simp
  have m: "monthsOf ''Years'' (JNum (Fin False 5)) = Fin False 60" by code_simp
  have q: "positive (monthsOf ''Years'' (JNum (Fin False 5)))" by code_simp
  have d: "fdiv (toNum (JNum (Fin False 500000)) None) (Fin False 60)
             = Fin False (4581298449066667 / 549755813888)"
    by code_simp
  have n: "toNum (JNum (Fin False 500000)) None = Fin False 500000" by code_simp
  show ?thesis
    using z q m d n
      loan_zero_rate[OF z q, of "\<lambda>a b. NaN" "JNum (Fin False 500000)"]
    by simp
qed

section \<open>Unit converters: proofs\<close>

lemma lit_consts:
  "lit (254 / 10000) = Fin False (3660525777126739 / 144115188075855872)"
  "lit (3048 / 10000) = Fin False (5490788665690109 / 18014398509481984)"
  "lit (45359237 / 100000000) = Fin False (8171193714040401 / 18014398509481984)"
  "lit (36 / 10) = Fin False (8106479329266893 / 2251799813685248)"
  "lit (44704 / 100000) = Fin False (4026578354839413 / 9007199254740992)"
  "lit (9290304 / 100000000) = Fin False (6694369541209381 / 72057594037927936)"
  by code_simp+

lemma inRange_20I: "1 / 2 ^ 20 \<le> c \<Longrightarrow> c \<le> 2 ^ 20 \<Longrightarrow> inRange 20 c"
  by (simp add: inRange_def pow2_def)

lemma scaling_ex_id:
  "\<exists>k. scaling \<lparr>uid = i, toBase = (\<lambda>v. v), fromBase = (\<lambda>v. v)\<rparr> k"
  using scaling_id[of "\<lparr>uid = i, toBase = (\<lambda>v. v), fromBase = (\<lambda>v. v)\<rparr>"] by auto

lemma scaling_ex_mul:
  "1 / 2 ^ 20 \<le> c \<Longrightarrow> c \<le> 2 ^ 20 \<Longrightarrow>
   \<exists>k. scaling \<lparr>uid = i, toBase = (\<lambda>v. fmul v (Fin False c)), fromBase = (\<lambda>v. fdiv v (Fin False c))\<rparr> k"
  using scaling_mul[of c "\<lparr>uid = i, toBase = (\<lambda>v. fmul v (Fin False c)), fromBase = (\<lambda>v. fdiv v (Fin False c))\<rparr>"]
    inRange_20I[of c] by auto

lemma scaling_ex_div:
  "1 / 2 ^ 20 \<le> c \<Longrightarrow> c \<le> 2 ^ 20 \<Longrightarrow>
   \<exists>k. scaling \<lparr>uid = i, toBase = (\<lambda>v. fdiv v (Fin False c)), fromBase = (\<lambda>v. fmul v (Fin False c))\<rparr> k"
  using scaling_div[of c "\<lparr>uid = i, toBase = (\<lambda>v. fdiv v (Fin False c)), fromBase = (\<lambda>v. fmul v (Fin False c))\<rparr>"]
    inRange_20I[of c] by auto

lemma length_scaling: "u \<in> set lengthUnits \<Longrightarrow> \<exists>k. scaling u k"
  unfolding lengthUnits_def lit_values lit_consts
  by (auto intro!: scaling_ex_id scaling_ex_mul scaling_ex_div)

lemma weight_scaling: "u \<in> set weightUnits \<Longrightarrow> \<exists>k. scaling u k"
  unfolding weightUnits_def lit_values lit_consts
  by (auto intro!: scaling_ex_id scaling_ex_mul scaling_ex_div)

lemma time_scaling: "u \<in> set timeUnits \<Longrightarrow> \<exists>k. scaling u k"
  unfolding timeUnits_def lit_values lit_consts
  by (auto intro!: scaling_ex_id scaling_ex_mul scaling_ex_div)

lemma speed_scaling: "u \<in> set speedUnits \<Longrightarrow> \<exists>k. scaling u k"
  unfolding speedUnits_def lit_values lit_consts
  by (auto intro!: scaling_ex_id scaling_ex_mul scaling_ex_div)

lemma area_scaling: "u \<in> set areaUnits \<Longrightarrow> \<exists>k. scaling u k"
  unfolding areaUnits_def lit_values lit_consts
  by (auto intro!: scaling_ex_id scaling_ex_mul scaling_ex_div)

lemma domain_scaling:
  assumes "units \<in> set domains" and "u \<in> set units"
  shows "\<exists>k. scaling u k"
  using assms length_scaling weight_scaling time_scaling speed_scaling area_scaling
  by (auto simp: domains_def)

lemma domain_distinct: "units \<in> set domains \<Longrightarrow> distinct (map uid units)"
  by (auto simp: domains_def lengthUnits_def weightUnits_def timeUnits_def speedUnits_def areaUnits_def)

lemma find_uid_Some:
  "distinct (map uid units) \<Longrightarrow> u \<in> set units \<Longrightarrow> find (\<lambda>x. uid x = uid u) units = Some u"
  by (induction units) (auto simp: rev_image_eqI)

text \<open>One unit, there and back.\<close>

lemma there_and_back:
  assumes sc: "scaling u k" and q: "inRange 900 q"
  shows "\<exists>v. fromBase u (toBase u (Fin s q)) = Fin s v \<and> near 2 q v"
proof -
  have k: "inRange 20 k" and kpos: "0 < k"
    using sc inRange_pos[of 20 k] by (simp_all add: scaling_def)
  have r1: "inRange 920 (q * k)" using inRange_mult[OF q k] by simp
  then have "safe (q * k)" by (rule inRange_safe) simp
  with sc obtain a where a: "toBase u (Fin s q) = Fin s a" "near 1 (q * k) a"
    unfolding scaling_def by blast
  have r2: "inRange 921 a" using inRange_near[OF r1 a(2)] by simp
  have "inRange 941 (a / k)" using inRange_div[OF r2 k] by simp
  then have "safe (a / k)" by (rule inRange_safe) simp
  with sc obtain v where v: "fromBase u (Fin s a) = Fin s v" "near 1 (a / k) v"
    unfolding scaling_def by blast
  have "near 1 (q * k / k) (a / k)" using near_div[OF a(2) kpos] .
  then have "near 1 q (a / k)" using kpos by simp
  then have "near 2 q v" using v(2) by (rule near_trans) simp
  with a(1) v(1) show ?thesis by simp
qed

text \<open>From one unit to another: the value is scaled by \<open>k1 / k2\<close>, up to two roundings.\<close>

lemma across:
  assumes s1: "scaling u1 k1" and s2: "scaling u2 k2" and q: "inRange m q" and m: "m \<le> 950" 
  shows "\<exists>v. fromBase u2 (toBase u1 (Fin s q)) = Fin s v \<and> near 2 (q * k1 / k2) v
             \<and> inRange (m + 42) v"
proof -
  have k1: "inRange 20 k1" and k2: "inRange 20 k2" and k2pos: "0 < k2"
    using s1 s2 inRange_pos[of 20 k2] by (simp_all add: scaling_def)
  have r1: "inRange (m + 20) (q * k1)" using inRange_mult[OF q k1] by (simp add: add.commute)
  then have "safe (q * k1)" using m by (intro inRange_safe[of "m + 20"]) simp_all
  with s1 obtain a where a: "toBase u1 (Fin s q) = Fin s a" "near 1 (q * k1) a"
    unfolding scaling_def by blast
  have r2: "inRange (m + 21) a" using inRange_near[OF r1 a(2)] by (simp add: add.commute)
  have r3: "inRange (m + 41) (a / k2)" using inRange_div[OF r2 k2] by (simp add: add.commute)
  then have "safe (a / k2)" using m by (intro inRange_safe[of "m + 41"]) simp_all
  with s2 obtain v where v: "fromBase u2 (Fin s a) = Fin s v" "near 1 (a / k2) v"
    unfolding scaling_def by blast
  have r4: "inRange (m + 42) v" using inRange_near[OF r3 v(2)] by (simp add: add.commute)
  have "near 1 (q * k1 / k2) (a / k2)" using near_div[OF a(2) k2pos] .
  then have "near 2 (q * k1 / k2) v" using v(2) by (rule near_trans) simp
  with a(1) v(1) r4 show ?thesis by simp
qed

lemma roundtrip_near:
  assumes d: "units \<in> set domains" and u1: "u1 \<in> set units" and u2: "u2 \<in> set units"
    and q: "inRange 900 q"
  shows "\<exists>w. convert units (JNum (convert units (JNum (Fin s q)) (uid u1) (uid u2))) (uid u2) (uid u1)
              = Fin s w \<and> near 4 q w"
proof -
  from domain_scaling[OF d u1] obtain k1 where s1: "scaling u1 k1" by blast
  from domain_scaling[OF d u2] obtain k2 where s2: "scaling u2 k2" by blast
  have kpos: "0 < k1" "0 < k2"
    using s1 s2 inRange_pos[of 20 k1] inRange_pos[of 20 k2] by (simp_all add: scaling_def)
  have f: "find (\<lambda>x. uid x = uid u1) units = Some u1" "find (\<lambda>x. uid x = uid u2) units = Some u2"
    using find_uid_Some[OF domain_distinct[OF d]] u1 u2 by simp_all
  have c: "convert units (JNum x) (uid a) (uid b) = fromBase b (toBase a x)"
    if "find (\<lambda>x. uid x = uid a) units = Some a" "find (\<lambda>x. uid x = uid b) units = Some b"
      "isFinite x" for a b x
    using that by (simp add: convert_def toNum_def coerce_def)
  from across[OF s1 s2 q, of s] obtain y where
    y: "fromBase u2 (toBase u1 (Fin s q)) = Fin s y" "near 2 (q * k1 / k2) y" "inRange 942 y"
    by auto
  from across[OF s2 s1 y(3), of s] obtain w where
    w: "fromBase u1 (toBase u2 (Fin s y)) = Fin s w" "near 2 (y * k2 / k1) w"
    by auto
  have "near 2 (q * k1 / k2 * (k2 / k1)) (y * (k2 / k1))"
    using near_mult[OF y(2), of "k2 / k1"] kpos by simp
  then have "near 2 q (y * k2 / k1)" using kpos by simp
  then have n: "near 4 q w" using w(2) by (rule near_trans) simp
  have "convert units (JNum (Fin s q)) (uid u1) (uid u2) = Fin s y"
    using c[OF f(1) f(2), of "Fin s q"] y(1) by simp
  moreover have "convert units (JNum (Fin s y)) (uid u2) (uid u1) = Fin s w"
    using c[OF f(2) f(1), of "Fin s y"] w(1) by simp
  ultimately show ?thesis using n by simp
qed

lemma base_unit_exact:
  assumes "units \<in> set domains" and "u \<in> set units"
    and "uid u \<in> set [''m'', ''kg'', ''sec'', ''m/s'', ''sq m'']"
  shows "fromBase u (toBase u x) = x"
  using assms
  by (auto simp: domains_def lengthUnits_def weightUnits_def timeUnits_def speedUnits_def areaUnits_def)

lemma fround_0: "fround s 0 = Fin s 0"
  by (simp add: fround_def)

lemma zero_roundtrip:
  assumes "units \<in> set domains" and "u \<in> set units"
  shows "fromBase u (toBase u (Fin s 0)) = Fin s 0"
  using assms
  unfolding domains_def lengthUnits_def weightUnits_def timeUnits_def speedUnits_def areaUnits_def
    lit_values lit_consts
  by (auto simp: fround_0)

text \<open>
  C1, as amended. In each of the five tables, for every unit and every input that \<open>toNum\<close>
  reads as a finite \<open>x\<close> whose magnitude is between \<open>2\<^sup>-\<^sup>9\<^sup>0\<^sup>0\<close> and \<open>2\<^sup>9\<^sup>0\<^sup>0\<close>: going to the base unit
  and back gives a finite number of the same sign within \<open>\<bar>x\<bar> / 2\<^sup>5\<^sup>0\<close> of \<open>x\<close>, and converting
  the input to any unit of the table and the result back gives one within \<open>\<bar>x\<bar> / 2\<^sup>4\<^sup>9\<close> of
  \<open>x\<close>. A zero comes back as the same zero, and in the base units (\<open>m\<close>, \<open>kg\<close>, \<open>sec\<close>,
  \<open>m/s\<close>, \<open>sq m\<close>) every value comes back as itself.
\<close>

theorem roundtrip_tolerance:
  assumes "units \<in> set domains" and "u1 \<in> set units" and "u2 \<in> set units"
    and "toNum val None = Fin s q" and "1 / 2 ^ 900 \<le> q" and "q \<le> 2 ^ 900"
  shows "(\<exists>v. fromBase u1 (toBase u1 (Fin s q)) = Fin s v \<and> \<bar>v - q\<bar> \<le> q / 2 ^ 50)
       \<and> (\<exists>w. convert units (JNum (convert units val (uid u1) (uid u2))) (uid u2) (uid u1)
                 = Fin s w \<and> \<bar>w - q\<bar> \<le> q / 2 ^ 49)
       \<and> fromBase u1 (toBase u1 (Fin s 0)) = Fin s 0
       \<and> (uid u1 \<in> set [''m'', ''kg'', ''sec'', ''m/s'', ''sq m''] \<longrightarrow> fromBase u1 (toBase u1 x) = x)"
proof -
  have r: "inRange 900 q" using assms(5,6) by (simp add: inRange_def pow2_def)
  have cv: "convert units val a b = convert units (JNum (Fin s q)) a b" for a b
    using assms(4) by (simp add: convert_def split: option.splits)
  have pos: "0 < q" using r by (rule inRange_pos)
  from domain_scaling[OF assms(1,2)] obtain k where "scaling u1 k" by blast
  from there_and_back[OF this r, of s] obtain v where
    v: "fromBase u1 (toBase u1 (Fin s q)) = Fin s v" "near 2 q v" by blast
  from roundtrip_near[OF assms(1,2,3) r, of s] obtain w where
    w: "convert units (JNum (convert units val (uid u1) (uid u2))) (uid u2) (uid u1) = Fin s w"
      "near 4 q w" unfolding cv by blast
  show ?thesis
    using v(1) near_bound2[OF v(2) pos] w(1) near_bound4[OF w(2) pos]
      zero_roundtrip[OF assms(1,2), of s] base_unit_exact[OF assms(1,2), of x]
    by blast
qed

theorem roundtrip_tolerance_witness:
  "lengthUnits \<in> set domains \<and> lengthUnits ! 1 \<in> set lengthUnits \<and> lengthUnits ! 5 \<in> set lengthUnits
   \<and> uid (lengthUnits ! 1) = ''cm'' \<and> uid (lengthUnits ! 5) = ''ft''
   \<and> (\<exists>v. fromBase (lengthUnits ! 1) (toBase (lengthUnits ! 1) (Fin False 7)) = Fin False v
           \<and> \<bar>v - 7\<bar> \<le> 7 / 2 ^ 50)
   \<and> toNum (JStr (ascii ''7'')) None = Fin False 7
   \<and> (\<exists>w. convert lengthUnits (JNum (convert lengthUnits (JStr (ascii ''7'')) ''cm'' ''ft'')) ''ft'' ''cm''
             = Fin False w \<and> \<bar>w - 7\<bar> \<le> 7 / 2 ^ 49)"
proof -
  have d: "lengthUnits \<in> set domains" by (simp add: domains_def)
  have u: "lengthUnits ! 1 \<in> set lengthUnits" "lengthUnits ! 5 \<in> set lengthUnits"
    by (simp_all add: lengthUnits_def)
  have i: "uid (lengthUnits ! 1) = ''cm''" "uid (lengthUnits ! 5) = ''ft''"
    by (simp_all add: lengthUnits_def)
  have n: "toNum (JStr (ascii ''7'')) None = Fin False 7" by code_simp
  have q: "(1::rat) / 2 ^ 900 \<le> 7" "(7::rat) \<le> 2 ^ 900" by simp_all
  show ?thesis
    using d u i n roundtrip_tolerance[OF d u(1) u(2) n q] by simp
qed

text \<open>
  The round trip is not the identity: 7 centimetres come back as \<open>7.000000000000001\<close>. And
  it is not within any tolerance for every finite \<open>x\<close>: \<open>2\<^sup>1\<^sup>0\<^sup>2\<^sup>3\<close> kilometres are infinitely
  many metres, which \<open>toNum\<close> turns into \<open>0\<close> on the way back.
\<close>

theorem roundtrip_exact_counterexample:
  "lengthUnits \<in> set domains \<and> lengthUnits ! 1 \<in> set lengthUnits
   \<and> uid (lengthUnits ! 1) = ''cm''
   \<and> fromBase (lengthUnits ! 1) (toBase (lengthUnits ! 1) (Fin False 7))
       = Fin False (7881299347898369 / 1125899906842624)
   \<and> \<not> strictEq (fromBase (lengthUnits ! 1) (toBase (lengthUnits ! 1) (Fin False 7))) (Fin False 7)
   \<and> convert lengthUnits (JNum (Fin False (2 ^ 1023))) ''km'' ''m'' = Infinity False
   \<and> convert lengthUnits (JNum (convert lengthUnits (JNum (Fin False (2 ^ 1023))) ''km'' ''m''))
         ''m'' ''km'' = Fin False 0"
proof -
  have d: "lengthUnits \<in> set domains" by (simp add: domains_def)
  have u: "lengthUnits ! 1 \<in> set lengthUnits" "uid (lengthUnits ! 1) = ''cm''"
    by (simp_all add: lengthUnits_def)
  have "fdiv (Fin False 7) (Fin False 100) = Fin False (1261007895663739 / 18014398509481984)"
    by code_simp
  moreover have "fmul (Fin False (1261007895663739 / 18014398509481984)) (Fin False 100)
                   = Fin False (7881299347898369 / 1125899906842624)"
    by code_simp
  ultimately have c: "fromBase (lengthUnits ! 1) (toBase (lengthUnits ! 1) (Fin False 7))
       = Fin False (7881299347898369 / 1125899906842624)"
    by (simp add: lengthUnits_def lit_values)
  have "pow2 1024 \<le> 2 ^ 1023 * 1000" by (simp add: pow2_def)
  then have "fround False (2 ^ 1023 * 1000) = Infinity False" by (rule fround_overflow)
  then have o: "convert lengthUnits (JNum (Fin False (2 ^ 1023))) ''km'' ''m'' = Infinity False"
    by (simp add: convert_def lengthUnits_def lit_values toNum_def coerce_def)
  have b: "convert lengthUnits (JNum (Infinity False)) ''m'' ''km'' = Fin False 0"
    by (simp add: convert_def lengthUnits_def lit_values toNum_def coerce_def orDefault_def fround_0)
  show ?thesis using d u c b unfolding o by simp
qed

section \<open>GST: proofs\<close>

text \<open>
  Four roundings and the error of the tax, which is up to \<open>(K + 1) / 2\<^sup>5\<^sup>2\<close> of the total: the
  factors multiply to at most \<open>1 + (K + 6) / 2\<^sup>5\<^sup>2\<close>.
\<close>

lemma factor_bound:
  assumes "1 \<le> K" and "K \<le> 2 ^ 51"
  shows "(1 + (K + 1) / 2 ^ 52) * eta * eta * eta - 1 \<le> (K + 6) / 2 ^ 52"
    and "1 \<le> (1 + (K + 1) / 2 ^ 52) * eta * eta * eta"
    and "(1 + (K + 1) / 2 ^ 52) * eta * eta \<le> 2"
    and "1 \<le> (1 + (K + 1) / 2 ^ 52) * eta * eta"
proof -
  define a where "a = (K + 1) / 2 ^ 52"
  define E where "E = eta * eta * eta"
  have a: "0 \<le> a" "a \<le> 33 / 64" using assms by (simp_all add: a_def field_simps)
  have E: "0 \<le> E - 1" "E - 1 \<le> (13 / 4) / 2 ^ 52"
    by (simp_all add: E_def eta_def field_simps)
  have "(E - 1) * (1 + a) \<le> ((13 / 4) / 2 ^ 52) * (1 + 33 / 64)"
    using a E by (intro mult_mono) simp_all
  also have "\<dots> \<le> 5 / 2 ^ 52" by simp
  finally have m: "(E - 1) * (1 + a) \<le> 5 / 2 ^ 52" .
  have "(1 + a) * E - 1 = a + (E - 1) * (1 + a)" by (simp add: algebra_simps)
  also have "\<dots> \<le> a + 5 / 2 ^ 52" using m by simp
  also have "\<dots> = (K + 6) / 2 ^ 52" by (simp add: a_def field_simps)
  finally show "(1 + (K + 1) / 2 ^ 52) * eta * eta * eta - 1 \<le> (K + 6) / 2 ^ 52"
    by (simp add: a_def E_def mult_ac)
  have "1 * 1 \<le> (1 + a) * E" using a E by (intro mult_mono) simp_all
  then show "1 \<le> (1 + (K + 1) / 2 ^ 52) * eta * eta * eta"
    by (simp add: a_def E_def mult_ac)
  have e2: "1 \<le> eta * eta" "eta * eta \<le> 5 / 4" by (simp_all add: eta_def field_simps)
  have "(1 + a) * (eta * eta) \<le> (1 + 33 / 64) * (5 / 4)"
    using a e2 by (intro mult_mono) simp_all
  also have "\<dots> \<le> 2" by simp
  finally show "(1 + (K + 1) / 2 ^ 52) * eta * eta \<le> 2" unfolding a_def mult.assoc .
  have "1 * 1 \<le> (1 + a) * (eta * eta)" using a e2 by (intro mult_mono) simp_all
  then show "1 \<le> (1 + (K + 1) / 2 ^ 52) * eta * eta" by (simp add: a_def mult_ac)
qed

text \<open>
  The rate as a fraction is \<open>R = sval t r\<close>. When \<open>\<bar>R\<bar>\<close> is at most \<open>K\<close> times \<open>\<bar>1 + R\<bar>\<close>,
  the denominator \<open>1 + R\<close> of the removal is not zero, and it is computed up to one rounding.
\<close>

lemma rate_gap:
  assumes r0: "0 \<le> r" and K: "K \<le> 2 ^ 51" and cond: "r \<le> K * \<bar>1 + sval t r\<bar>"
  shows "1 / 2 ^ 52 \<le> \<bar>1 + sval t r\<bar>" and "\<bar>1 + sval t r\<bar> \<le> 1 + r"
proof -
  define R where "R = sval t r"
  define c where "c = \<bar>1 + R\<bar>"
  have absR: "\<bar>R\<bar> = r" using r0 by (simp add: R_def sval_def)
  have cpos: "0 < c"
  proof (rule ccontr)
    assume "\<not> 0 < c"
    then have c0: "c = 0" by (simp add: c_def)
    with cond have "r \<le> 0" by (simp add: c_def R_def)
    with r0 have "r = 0" by simp
    then have "c = 1" by (simp add: c_def R_def sval_def)
    with c0 show False by simp
  qed
  have "1 / 2 ^ 52 \<le> c"
  proof (cases "r \<le> 1 / 2")
    case True
    then have "1 / 2 \<le> c" using absR unfolding c_def by linarith
    moreover have "(1::rat) / 2 ^ 52 \<le> 1 / 2" by simp
    ultimately show ?thesis by linarith
  next
    case False
    have "K * c \<le> 2 ^ 51 * c" using K cpos by (simp add: mult_right_mono)
    moreover have "r \<le> K * c" using cond by (simp add: c_def R_def)
    ultimately have "1 / 2 < 2 ^ 51 * c" using False by linarith
    then show ?thesis by (simp add: field_simps)
  qed
  then show "1 / 2 ^ 52 \<le> \<bar>1 + sval t r\<bar>" by (simp add: c_def R_def)
  show "\<bar>1 + sval t r\<bar> \<le> 1 + r" using absR unfolding R_def by linarith
qed

lemma one_plus_rate:
  assumes r0: "0 \<le> r" and rhi: "r \<le> 2 ^ 1000"
    and K: "K \<le> 2 ^ 51" and cond: "r \<le> K * \<bar>1 + sval t r\<bar>"
  shows "\<exists>d. fadd (lit 1) (Fin t r) = Fin (1 + sval t r < 0) d
             \<and> near 1 \<bar>1 + sval t r\<bar> d \<and> 0 < d"
proof -
  define c where "c = \<bar>1 + sval t r\<bar>"
  have clo: "1 / 2 ^ 52 \<le> c" and chi: "c \<le> 1 + r"
    using rate_gap[OF r0 K cond] by (simp_all add: c_def)
  have "(0::rat) < 1 / 2 ^ 52" by simp
  then have cpos: "0 < c" using clo by linarith
  have csafe: "safe c"
  proof -
    have "pow2 (- 1022) \<le> 1 / 2 ^ 52" by (simp add: pow2_def)
    with clo have lo: "pow2 (- 1022) \<le> c" by (meson order_trans)
    have "c \<le> 1 + 2 ^ 1000" using chi rhi by simp
    moreover have "1 + (2::rat) ^ 1000 \<le> pow2 1023" by (simp add: pow2_def)
    ultimately have "c \<le> pow2 1023" by (rule order_trans)
    with lo show ?thesis by (simp add: safe_def)
  qed
  have D: "fadd (lit 1) (Fin t r) = fround (1 + sval t r < 0) c"
    using cpos by (auto simp: lit_values fsum_def sval_def c_def)
  from fround_near[OF csafe, of "1 + sval t r < 0"] obtain d where
    d: "fround (1 + sval t r < 0) c = Fin (1 + sval t r < 0) d" "near 1 c d" by blast
  have etapos: "0 < eta" by (simp add: eta_def)
  have dpos: "0 < d"
  proof (rule ccontr)
    assume "\<not> 0 < d"
    then have "d * eta \<le> 0" using etapos by (simp add: mult_le_0_iff)
    moreover have "c \<le> d * eta" using d(2) by (simp add: near_def)
    ultimately show False using cpos by linarith
  qed
  show ?thesis using D d dpos by (simp add: c_def)
qed

text \<open>
  Adding the tax to a zero amount and removing it again gives a zero.
\<close>

lemma gst_roundtrip_zero:
  assumes r0: "0 \<le> r" and rhi: "r \<le> 2 ^ 1000"
    and K: "K \<le> 2 ^ 51" and cond: "r \<le> K * \<bar>1 + sval t r\<bar>"
  shows "\<exists>z. fadd (Fin s 0) (fmul (Fin s 0) (Fin t r)) = Fin z 0
           \<and> (\<exists>z'. fdiv (Fin z 0) (fadd (lit 1) (Fin t r)) = Fin z' 0)"
proof -
  from one_plus_rate[OF assms] obtain d where
    d: "fadd (lit 1) (Fin t r) = Fin (1 + sval t r < 0) d" "0 < d" by blast
  have "fadd (Fin s 0) (fmul (Fin s 0) (Fin t r)) = Fin (s \<and> (s \<noteq> t)) 0"
    by (simp add: fround_def fsum_def sval_def)
  moreover have "fdiv (Fin (s \<and> (s \<noteq> t)) 0) (fadd (lit 1) (Fin t r))
                   = Fin ((s \<and> (s \<noteq> t)) \<noteq> (1 + sval t r < 0)) 0"
    using d by (simp add: fround_def)
  ultimately show ?thesis by blast
qed

text \<open>
  The amount is \<open>q\<close> with the sign \<open>s\<close>. The tax is \<open>q * r\<close> up to one rounding, which may be
  a rounding in the subnormal range; the total is \<open>W = q + tax\<close> up to one more, and \<open>W\<close>
  differs from \<open>q * (1 + R)\<close> by the error of the tax, which is at most \<open>q * \<bar>1 + R\<bar>\<close> times
  \<open>x = (K + 1) / 2\<^sup>5\<^sup>3\<close>. The removal divides by \<open>1 + R\<close> up to one rounding and rounds the
  quotient.
\<close>

lemma gst_roundtrip:
  assumes q: "1 / 2 ^ 900 \<le> q" and r0: "0 \<le> r" and rhi: "r \<le> 2 ^ 1000"
    and prod: "q * (1 + r) \<le> 2 ^ 1000"
    and K: "1 \<le> K" "K \<le> 2 ^ 51" and cond: "r \<le> K * \<bar>1 + sval t r\<bar>"
  shows "\<exists>z T. fadd (Fin s q) (fmul (Fin s q) (Fin t r)) = Fin z T
           \<and> (\<exists>b. fdiv (Fin z T) (fadd (lit 1) (Fin t r)) = Fin s b
                   \<and> \<bar>b - q\<bar> \<le> q * (K + 6) / 2 ^ 52)"
proof -
  define R where "R = sval t r"
  define c where "c = \<bar>1 + R\<bar>"
  have absR: "\<bar>R\<bar> = r" using r0 by (simp add: R_def sval_def)
  have "(0::rat) < 1 / 2 ^ 900" by simp
  then have qpos: "0 < q" using q by linarith
  have clo: "1 / 2 ^ 52 \<le> c" and chi: "c \<le> 1 + r"
    using rate_gap[OF r0 K(2) cond] by (simp_all add: c_def R_def)
  have "(0::rat) < 1 / 2 ^ 52" by simp
  then have cpos: "0 < c" using clo by linarith
  have qcpos: "0 < q * c" using qpos cpos by simp
  have qc_hi: "q * c \<le> 2 ^ 1000"
  proof -
    have "q * c \<le> q * (1 + r)" using chi qpos by (intro mult_left_mono) simp_all
    with prod show ?thesis by linarith
  qed
  have qc_lo: "1 / 2 ^ 952 \<le> q * c"
  proof -
    have "(1 / 2 ^ 900) * (1 / 2 ^ 52) \<le> q * c" using q clo by (intro mult_mono) simp_all
    then show ?thesis by simp
  qed
  have qr0: "0 \<le> q * r" using qpos r0 by simp
  have "q * r \<le> q * (1 + r)" using qpos by (simp add: algebra_simps)
  moreover have p1000: "(2::rat) ^ 1000 \<le> pow2 1023" by (simp add: pow2_def)
  ultimately have "q * r \<le> pow2 1023" using prod by linarith
  from fround_err[OF qr0 this, of "s \<noteq> t"] obtain tx where
    tx: "fround (s \<noteq> t) (q * r) = Fin (s \<noteq> t) tx" "0 \<le> tx"
      "\<bar>tx - q * r\<bar> \<le> q * r / 2 ^ 53 + pow2 (- 1075)" by blast
  define x where "x = (K + 1) / 2 ^ 53"
  have x: "0 \<le> x" "x \<le> 1 / 2" using K by (simp_all add: x_def field_simps)
  have tau: "pow2 (- 1075) \<le> q * c / 2 ^ 53"
  proof -
    have "pow2 (- 1075) \<le> 1 / 2 ^ 952 / 2 ^ 53" by (simp add: pow2_def)
    also have "\<dots> \<le> q * c / 2 ^ 53" using qc_lo by (simp add: divide_right_mono)
    finally show ?thesis .
  qed
  have e1: "q * r / 2 ^ 53 \<le> q * c * K / 2 ^ 53"
  proof -
    have "r \<le> K * c" using cond by (simp add: c_def R_def)
    then have "q * r \<le> q * (K * c)" using qpos by (intro mult_left_mono) simp_all
    then show ?thesis by (simp add: divide_right_mono mult_ac)
  qed
  have err: "\<bar>tx - q * r\<bar> \<le> q * c * x"
  proof -
    have "q * c * K / 2 ^ 53 + q * c / 2 ^ 53 = q * c * x" by (simp add: x_def field_simps)
    then show ?thesis using tx(3) e1 tau by linarith
  qed
  define W where "W = q + sval t tx"
  have Wd: "W - q * (1 + R) = sval t (tx - q * r)"
    by (simp add: W_def R_def sval_def algebra_simps)
  have Werr: "\<bar>W - q * (1 + R)\<bar> \<le> q * c * x"
    using err unfolding Wd by (cases t) (simp_all add: sval_def abs_minus_commute)
  have half: "q * c * x \<le> q * c * (1 / 2)" using x(2) qcpos by (intro mult_left_mono) simp_all
  have Wsign: "(W < 0) = (1 + R < 0)" and Wne: "W \<noteq> 0"
    and W_lo: "q * c * (1 - x) \<le> \<bar>W\<bar>" and W_hi: "\<bar>W\<bar> \<le> q * c * (1 + x)"
  proof -
    have "(W < 0) = (1 + R < 0) \<and> W \<noteq> 0 \<and> q * c - q * c * x \<le> \<bar>W\<bar> \<and> \<bar>W\<bar> \<le> q * c + q * c * x"
    proof (cases "1 + R < 0")
      case True
      then have cR: "1 + R = - c" by (simp add: c_def)
      have "q * (1 + R) = - (q * c)" unfolding cR by simp
      with Werr half qcpos True show ?thesis by simp linarith
    next
      case False
      then have cR: "1 + R = c" by (simp add: c_def)
      have "q * (1 + R) = q * c" unfolding cR by simp
      with Werr half qcpos False show ?thesis by simp linarith
    qed
    then show "(W < 0) = (1 + R < 0)" and "W \<noteq> 0"
      and "q * c * (1 - x) \<le> \<bar>W\<bar>" and "\<bar>W\<bar> \<le> q * c * (1 + x)"
      by (simp_all add: algebra_simps)
  qed
  have sv: "sval s q + sval (s \<noteq> t) tx = sval s W"
    by (cases s; cases t) (simp_all add: W_def sval_def)
  have add: "fadd (Fin s q) (fmul (Fin s q) (Fin t r)) = fround (s \<noteq> (1 + R < 0)) \<bar>W\<bar>"
  proof -
    have "fadd (Fin s q) (fmul (Fin s q) (Fin t r)) = fsum (s \<and> (s \<noteq> t)) (sval s W)"
      using tx(1) sv by simp
    also have "\<dots> = fround (sval s W < 0) \<bar>sval s W\<bar>" using Wne by (simp add: fsum_def sval_def)
    also have "\<dots> = fround (s \<noteq> (1 + R < 0)) \<bar>W\<bar>"
      using Wsign Wne by (cases s) (auto simp: sval_def)
    finally show ?thesis .
  qed
  have Wsafe: "safe \<bar>W\<bar>"
  proof -
    have "q * c * (1 / 2) \<le> q * c * (1 - x)" using x(2) qcpos by (intro mult_left_mono) simp_all
    then have "q * c * (1 / 2) \<le> \<bar>W\<bar>" using W_lo by (rule order_trans)
    moreover have "1 / 2 ^ 952 * (1 / 2) \<le> q * c * (1 / 2)"
      using qc_lo by (rule mult_right_mono) simp
    moreover have "pow2 (- 1022) \<le> 1 / 2 ^ 952 * (1 / 2)" by (simp add: pow2_def)
    ultimately have lo: "pow2 (- 1022) \<le> \<bar>W\<bar>" by (meson order_trans)
    have "q * c * (1 + x) \<le> q * c * 2" using x(2) qcpos by (intro mult_left_mono) simp_all
    with W_hi have "\<bar>W\<bar> \<le> q * c * 2" by (rule order_trans)
    moreover have "q * c * 2 \<le> 2 ^ 1000 * 2" using qc_hi by (rule mult_right_mono) simp
    moreover have "(2::rat) ^ 1000 * 2 \<le> pow2 1023" by (simp add: pow2_def)
    ultimately have "\<bar>W\<bar> \<le> pow2 1023" by (meson order_trans)
    with lo show ?thesis by (simp add: safe_def)
  qed
  from fround_near[OF Wsafe, of "s \<noteq> (1 + R < 0)"] obtain T where
    T: "fround (s \<noteq> (1 + R < 0)) \<bar>W\<bar> = Fin (s \<noteq> (1 + R < 0)) T" "near 1 \<bar>W\<bar> T" by blast
  from one_plus_rate[OF r0 rhi K(2) cond] obtain d where
    D: "fadd (lit 1) (Fin t r) = Fin (1 + R < 0) d" and d: "near 1 c d" and dpos: "0 < d"
    unfolding R_def c_def by blast
  have etapos: "0 < eta" "1 \<le> eta" by (simp_all add: eta_def)
  have Tpos: "0 \<le> T"
  proof (rule ccontr)
    assume "\<not> 0 \<le> T"
    then have "T * eta \<le> 0" using etapos by (simp add: mult_le_0_iff)
    moreover have "\<bar>W\<bar> \<le> T * eta" using T(2) by (simp add: near_def)
    ultimately show False using Wne by simp
  qed
  have sgn: "((s \<noteq> (1 + R < 0)) \<noteq> (1 + R < 0)) = s" by auto
  have rem: "fdiv (Fin (s \<noteq> (1 + R < 0)) T) (fadd (lit 1) (Fin t r)) = fround s (T / d)"
    using dpos sgn unfolding D by simp
  define f1 where "f1 = 1 + 2 * x"
  have f1: "1 \<le> f1" "0 < f1" using x by (simp_all add: f1_def)
  have f1K: "f1 = 1 + (K + 1) / 2 ^ 52" by (simp add: f1_def x_def)
  have n1: "nearBy f1 (q * c) \<bar>W\<bar>"
  proof -
    have "(1 - x) * (1 + 2 * x) = 1 + x * (1 - 2 * x)" by (simp add: algebra_simps)
    moreover have "0 \<le> x * (1 - 2 * x)" using x by simp
    ultimately have "1 \<le> (1 - x) * (1 + 2 * x)" by simp
    then have "q * c * 1 \<le> q * c * ((1 - x) * (1 + 2 * x))"
      using qcpos by (intro mult_left_mono) simp_all
    also have "\<dots> = (q * c * (1 - x)) * (1 + 2 * x)" by (simp add: mult_ac)
    also have "\<dots> \<le> \<bar>W\<bar> * (1 + 2 * x)" using W_lo x by (intro mult_right_mono) simp_all
    finally have 1: "q * c \<le> \<bar>W\<bar> * f1" by (simp add: f1_def)
    have "q * c * (1 + x) \<le> q * c * (1 + 2 * x)" using qcpos x by (intro mult_left_mono) simp_all
    with W_hi have 2: "\<bar>W\<bar> \<le> q * c * f1" by (simp add: f1_def)
    from 1 2 show ?thesis by (simp add: nearBy_def)
  qed
  have nT: "nearBy eta \<bar>W\<bar> T" using T(2) by (simp add: near_def nearBy_def)
  have nd: "nearBy eta c d" using d by (simp add: near_def nearBy_def)
  have n2: "nearBy (f1 * eta) (q * c) T"
    using nearBy_trans[OF n1 nT] f1 etapos by simp
  have "nearBy (f1 * eta * eta) (q * c / c) (T / d)"
    using n2 nd by (rule nearBy_divide) (use cpos dpos qcpos Tpos f1 etapos in simp_all)
  then have n3: "nearBy (f1 * eta * eta) q (T / d)" using cpos by simp
  have F2: "f1 * eta * eta \<le> 2" "1 \<le> f1 * eta * eta"
    using factor_bound(3,4)[OF K] unfolding f1K by simp_all
  have qhi: "q \<le> 2 ^ 1000"
  proof -
    have "q * 1 \<le> q * (1 + r)" using qpos r0 by (intro mult_left_mono) simp_all
    with prod show ?thesis by simp
  qed
  have TDsafe: "safe (T / d)"
  proof -
    have a: "q \<le> T / d * (f1 * eta * eta)" and b: "T / d \<le> q * (f1 * eta * eta)"
      using n3 by (simp_all add: nearBy_def)
    have TD0: "0 \<le> T / d" using Tpos dpos by simp
    have "T / d * (f1 * eta * eta) \<le> T / d * 2" using F2(1) TD0 by (intro mult_left_mono) simp_all
    with a have "q \<le> T / d * 2" by (rule order_trans)
    with q have "1 / 2 ^ 900 \<le> T / d * 2" by (rule order_trans)
    moreover have "pow2 (- 1022) * 2 \<le> 1 / 2 ^ 900" by (simp add: pow2_def)
    ultimately have "pow2 (- 1022) * 2 \<le> T / d * 2" by (meson order_trans)
    moreover have "(pow2 (- 1022) * 2 \<le> T / d * 2) = (pow2 (- 1022) \<le> T / d)"
      by (rule mult_le_cancel_right_pos) simp
    ultimately have lo: "pow2 (- 1022) \<le> T / d" by (rule iffD1[rotated])
    have "q * (f1 * eta * eta) \<le> q * 2" using F2(1) qpos by (intro mult_left_mono) simp_all
    with b have "T / d \<le> q * 2" by (rule order_trans)
    moreover have "q * 2 \<le> 2 ^ 1000 * 2" using qhi by (rule mult_right_mono) simp
    moreover have "(2::rat) ^ 1000 * 2 \<le> pow2 1023" by (simp add: pow2_def)
    ultimately have "T / d \<le> pow2 1023" by (meson order_trans)
    with lo show ?thesis by (simp add: safe_def)
  qed
  from fround_near[OF TDsafe, of s] obtain b where
    b: "fround s (T / d) = Fin s b" "near 1 (T / d) b" by blast
  have nb: "nearBy eta (T / d) b" using b(2) by (simp add: near_def nearBy_def)
  have n4: "nearBy (f1 * eta * eta * eta) q b"
    using nearBy_trans[OF n3 nb] F2(2) etapos by simp
  have "\<bar>b - q\<bar> \<le> q * (f1 * eta * eta * eta - 1)"
    using n4 qpos factor_bound(2)[OF K] unfolding f1K by (rule nearBy_bound)
  also have "\<dots> \<le> q * ((K + 6) / 2 ^ 52)"
    using factor_bound(1)[OF K] qpos unfolding f1K by (intro mult_left_mono) simp_all
  finally have "\<bar>b - q\<bar> \<le> q * (K + 6) / 2 ^ 52" by simp
  with add T(1) rem b(1) show ?thesis by simp
qed

text \<open>
  C3, as amended. Let \<open>toNum\<close> read the amount as \<open>q\<close> with the sign \<open>s\<close>, and let the rate as
  a fraction, \<open>toNum(rate) / 100\<close> as the code computes it, be \<open>r\<close> with the sign \<open>t\<close>, that is
  \<open>R = sval t r\<close>, positive or negative. Suppose that nothing underflows or overflows (\<open>q\<close> is
  zero or at least \<open>2\<^sup>-\<^sup>9\<^sup>0\<^sup>0\<close>, and \<open>r\<close> and \<open>q * (1 + r)\<close> are at most \<open>2\<^sup>1\<^sup>0\<^sup>0\<^sup>0\<close>), and that
  \<open>\<bar>R\<bar> \<le> K * \<bar>1 + R\<bar>\<close> for a \<open>K\<close> between \<open>1\<close> and \<open>2\<^sup>5\<^sup>1\<close>, which keeps the rate away from
  \<open>-100\<close> per cent. Then adding the tax and removing it from the total at the same rate
  gives a finite number, of the sign of the amount unless the amount is zero, within
  \<open>\<bar>amount\<bar> * (K + 6) / 2\<^sup>5\<^sup>2\<close> of the amount. For a rate of \<open>-50\<close> per cent or more \<open>K = 1\<close>
  will do; the tolerance is \<open>\<bar>amount\<bar> / 2\<^sup>4\<^sup>9\<close> when \<open>K = 2\<close>, and the closer the rate is to
  \<open>-100\<close> per cent, the larger \<open>K\<close> has to be.
\<close>

theorem gst_add_remove:
  assumes "toNum amount None = Fin s q"
    and "fdiv (toNum rate None) (lit 100) = Fin t r"
    and "q = 0 \<or> 1 / 2 ^ 900 \<le> q"
    and "0 \<le> r" and "r \<le> 2 ^ 1000" and "q * (1 + r) \<le> 2 ^ 1000"
    and "1 \<le> K" and "K \<le> 2 ^ 51" and "r \<le> K * \<bar>1 + sval t r\<bar>"
  shows "\<exists>z b. gst.total (calc (JNum (gst.total (calc amount rate ''Add GST''))) rate ''Remove GST'')
                  = Fin z b
               \<and> (q \<noteq> 0 \<longrightarrow> z = s) \<and> \<bar>b - q\<bar> \<le> q * (K + 6) / 2 ^ 52"
proof -
  have a: "gst.total (calc amount rate ''Add GST'') = fadd (Fin s q) (fmul (Fin s q) (Fin t r))"
    using assms(1,2) by (simp add: calc_def)
  have b: "gst.total (calc (JNum (Fin z T)) rate ''Remove GST'')
             = fdiv (Fin z T) (fadd (lit 1) (Fin t r))" for z T
    using assms(2) by (simp add: calc_def)
  show ?thesis
  proof (cases "q = 0")
    case True
    from gst_roundtrip_zero[OF assms(4,5,8,9), of s] obtain z z' where
      "fadd (Fin s 0) (fmul (Fin s 0) (Fin t r)) = Fin z 0"
      "fdiv (Fin z 0) (fadd (lit 1) (Fin t r)) = Fin z' 0" by blast
    then show ?thesis using True a b by simp
  next
    case False
    with assms(3) have q: "1 / 2 ^ 900 \<le> q" by simp
    from gst_roundtrip[OF q assms(4,5,6,7,8,9), of s] obtain z T c where
      "fadd (Fin s q) (fmul (Fin s q) (Fin t r)) = Fin z T"
      "fdiv (Fin z T) (fadd (lit 1) (Fin t r)) = Fin s c" "\<bar>c - q\<bar> \<le> q * (K + 6) / 2 ^ 52"
      by blast
    then show ?thesis using a b by simp
  qed
qed

theorem gst_add_remove_witness:
  "toNum (JStr (ascii ''1000'')) None = Fin False 1000
   \<and> fdiv (toNum (JStr (ascii ''-50'')) None) (lit 100) = Fin True (1 / 2)
   \<and> (1 / 2 :: rat) \<le> 1 * \<bar>1 + sval True (1 / 2)\<bar>
   \<and> gst.total (calc (JStr (ascii ''1000'')) (JStr (ascii ''-50'')) ''Add GST'') = Fin False 500
   \<and> gst.total (calc (JNum (Fin False 500)) (JStr (ascii ''-50'')) ''Remove GST'') = Fin False 1000
   \<and> (\<exists>z b. gst.total (calc (JNum (gst.total (calc (JStr (ascii ''1000'')) (JStr (ascii ''-50''))
                                    ''Add GST''))) (JStr (ascii ''-50'')) ''Remove GST'') = Fin z b
             \<and> z = False \<and> \<bar>b - 1000\<bar> \<le> 1000 * (1 + 6) / 2 ^ 52)
   \<and> fdiv (toNum (JStr (ascii ''-150'')) None) (lit 100) = Fin True (3 / 2)
   \<and> (3 / 2 :: rat) \<le> 3 * \<bar>1 + sval True (3 / 2)\<bar>
   \<and> (\<exists>z b. gst.total (calc (JNum (gst.total (calc (JStr (ascii ''1000'')) (JStr (ascii ''-150''))
                                    ''Add GST''))) (JStr (ascii ''-150'')) ''Remove GST'') = Fin z b
             \<and> z = False \<and> \<bar>b - 1000\<bar> \<le> 1000 * (3 + 6) / 2 ^ 52)
   \<and> fdiv (toNum (JStr (ascii ''18'')) None) (lit 100) = Fin False (3242591731706757 / 18014398509481984)
   \<and> (\<exists>z b. gst.total (calc (JNum (gst.total (calc (JStr (ascii ''1000'')) (JStr (ascii ''18''))
                                    ''Add GST''))) (JStr (ascii ''18'')) ''Remove GST'') = Fin z b
             \<and> z = False \<and> \<bar>b - 1000\<bar> \<le> 1000 * (1 + 6) / 2 ^ 52)"
proof -
  have n: "toNum (JStr (ascii ''1000'')) None = Fin False 1000" by code_simp
  have r1: "fdiv (toNum (JStr (ascii ''-50'')) None) (lit 100) = Fin True (1 / 2)" by code_simp
  have r2: "fdiv (toNum (JStr (ascii ''-150'')) None) (lit 100) = Fin True (3 / 2)" by code_simp
  have r3: "fdiv (toNum (JStr (ascii ''18'')) None) (lit 100)
              = Fin False (3242591731706757 / 18014398509481984)" by code_simp
  have k1: "(1 / 2 :: rat) \<le> 1 * \<bar>1 + sval True (1 / 2)\<bar>" by (simp add: sval_def)
  have k2: "(3 / 2 :: rat) \<le> 3 * \<bar>1 + sval True (3 / 2)\<bar>" by (simp add: sval_def)
  have k3: "(3242591731706757 / 18014398509481984 :: rat)
              \<le> 1 * \<bar>1 + sval False (3242591731706757 / 18014398509481984)\<bar>" by (simp add: sval_def)
  have a: "gst.total (calc (JStr (ascii ''1000'')) (JStr (ascii ''-50'')) ''Add GST'') = Fin False 500"
    by code_simp
  have b: "gst.total (calc (JNum (Fin False 500)) (JStr (ascii ''-50'')) ''Remove GST'') = Fin False 1000"
    by code_simp
  have q: "(1000::rat) = 0 \<or> 1 / 2 ^ 900 \<le> (1000::rat)" by simp
  show ?thesis
    using n r1 r2 r3 k1 k2 a b
      gst_add_remove[OF n r1 q _ _ _ _ _ k1]
      gst_add_remove[OF n r2 q _ _ _ _ _ k2]
      gst_add_remove[OF n r3 q _ _ _ _ _ k3]
    by simp
qed

text \<open>A number of \<open>n\<close> half steps of the subnormal range is rounded to a whole number of steps.\<close>

lemma fround_half_steps:
  assumes "0 < n" and "n < 2 ^ 53"
  shows "fround s (of_int n / 2 ^ 1075) = Fin s (of_int (roundEven (of_int n / 2)) / 2 ^ 1074)"
proof -
  have "(of_int n :: rat) < of_int (2 ^ 53)" using assms(2) by (simp only: of_int_less_iff)
  then have "(of_int n :: rat) / 2 ^ 1075 < 2 ^ 53 / 2 ^ 1075" by (simp add: divide_strict_right_mono)
  also have "\<dots> = pow2 (- 1022)" by (simp add: pow2_def)
  finally have lt: "(of_int n :: rat) / 2 ^ 1075 < pow2 (- 1022)" .
  have pos: "(0::rat) < of_int n / 2 ^ 1075" using assms(1) by simp
  have "(of_int n :: rat) / 2 ^ 1075 / pow2 (- 1074) = of_int n / 2" by (simp add: pow2_def)
  then have "quantize (of_int n / 2 ^ 1075) (pow2 (- 1074))
               = of_int (roundEven (of_int n / 2)) / 2 ^ 1074"
    by (simp add: quantize_def pow2_def)
  with fround_subnormal[OF pos lt, of s] show ?thesis by simp
qed

lemma tiny_values:
  "fround s (1 / 2 ^ 1075) = Fin s 0"
  "fround s (1 / 2 ^ 1074) = Fin s (1 / 2 ^ 1074)"
  "fround s (1 / 2 ^ 1073) = Fin s (1 / 2 ^ 1073)"
proof -
  have "roundEven (of_int 1 / 2) = 0" "roundEven (of_int 2 / 2) = 1" "roundEven (of_int 4 / 2) = 2"
    by code_simp+
  then show "fround s (1 / 2 ^ 1075) = Fin s 0" "fround s (1 / 2 ^ 1074) = Fin s (1 / 2 ^ 1074)"
    "fround s (1 / 2 ^ 1073) = Fin s (1 / 2 ^ 1073)"
    using fround_half_steps[of 1 s] fround_half_steps[of 2 s] fround_half_steps[of 4 s]
    by simp_all
qed

text \<open>
  Where the amended statement stops. At \<open>-100\<close> per cent the total with tax is \<open>0\<close> and
  removing the tax divides \<open>0\<close> by \<open>0\<close>: the amount \<open>1000\<close> comes back as \<open>NaN\<close>. At
  \<open>-99.99999999999999\<close> per cent the fraction is \<open>-(1 - 2\<^sup>-\<^sup>5\<^sup>3)\<close>, the total with tax is what
  cancellation leaves of it, and the amount \<open>3\<close> comes back as \<open>4\<close>. The amount \<open>2\<^sup>1\<^sup>0\<^sup>2\<^sup>3\<close> at
  \<open>200\<close> per cent has an infinite total, which \<open>toNum\<close> reads as \<open>0\<close>. And the smallest positive
  number, \<open>2\<^sup>-\<^sup>1\<^sup>0\<^sup>7\<^sup>4\<close>, at \<open>-50\<close> per cent has a tax that is rounded to zero, and comes back
  doubled.
\<close>

theorem gst_add_remove_counterexample:
  "gst.total (calc (JNum (Fin False 1000)) (JNum (Fin True 100)) ''Add GST'') = Fin False 0
   \<and> gst.total (calc (JNum (gst.total (calc (JNum (Fin False 1000)) (JNum (Fin True 100)) ''Add GST'')))
                  (JNum (Fin True 100)) ''Remove GST'') = NaN
   \<and> fdiv (Fin True (7036874417766399 / 70368744177664)) (lit 100)
        = Fin True (9007199254740991 / 9007199254740992)
   \<and> gst.total (calc (JNum (gst.total (calc (JNum (Fin False 3))
                    (JNum (Fin True (7036874417766399 / 70368744177664))) ''Add GST'')))
                  (JNum (Fin True (7036874417766399 / 70368744177664))) ''Remove GST'') = Fin False 4
   \<and> gst.total (calc (JNum (Fin False (2 ^ 1023))) (JNum (Fin False 200)) ''Add GST'') = Infinity False
   \<and> gst.total (calc (JNum (gst.total (calc (JNum (Fin False (2 ^ 1023))) (JNum (Fin False 200)) ''Add GST'')))
                  (JNum (Fin False 200)) ''Remove GST'') = Fin False 0
   \<and> gst.total (calc (JNum (gst.total (calc (JNum (Fin False (1 / 2 ^ 1074))) (JNum (Fin True 50)) ''Add GST'')))
                  (JNum (Fin True 50)) ''Remove GST'') = Fin False (1 / 2 ^ 1073)"
proof -
  have 1: "gst.total (calc (JNum (Fin False 1000)) (JNum (Fin True 100)) ''Add GST'') = Fin False 0
   \<and> gst.total (calc (JNum (gst.total (calc (JNum (Fin False 1000)) (JNum (Fin True 100)) ''Add GST'')))
                  (JNum (Fin True 100)) ''Remove GST'') = NaN"
    by code_simp
  have 2: "fdiv (Fin True (7036874417766399 / 70368744177664)) (lit 100)
        = Fin True (9007199254740991 / 9007199254740992)
   \<and> gst.total (calc (JNum (gst.total (calc (JNum (Fin False 3))
                    (JNum (Fin True (7036874417766399 / 70368744177664))) ''Add GST'')))
                  (JNum (Fin True (7036874417766399 / 70368744177664))) ''Remove GST'') = Fin False 4"
    by code_simp
  have two: "fdiv (Fin False 200) (lit 100) = Fin False 2" "fadd (lit 1) (Fin False 2) = Fin False 3"
    by code_simp+
  have "pow2 1024 \<le> 2 ^ 1023 * 2" by (simp add: pow2_def)
  then have "fround False (2 ^ 1023 * 2) = Infinity False" by (rule fround_overflow)
  then have 3: "gst.total (calc (JNum (Fin False (2 ^ 1023))) (JNum (Fin False 200)) ''Add GST'')
                  = Infinity False"
    using two by (simp add: calc_def)
  have 4: "gst.total (calc (JNum (Infinity False)) (JNum (Fin False 200)) ''Remove GST'') = Fin False 0"
    using two by (simp add: calc_def toNum_def coerce_def orDefault_def fround_def)
  have half: "fdiv (Fin True 50) (lit 100) = Fin True (1 / 2)"
    "fadd (lit 1) (Fin True (1 / 2)) = Fin False (1 / 2)"
    by code_simp+
  have 5: "gst.total (calc (JNum (Fin False (1 / 2 ^ 1074))) (JNum (Fin True 50)) ''Add GST'')
             = Fin False (1 / 2 ^ 1074)"
    using half tiny_values(1)[of True] tiny_values(2)[of False]
    by (simp add: calc_def fsum_def sval_def)
  have 6: "gst.total (calc (JNum (Fin False (1 / 2 ^ 1074))) (JNum (Fin True 50)) ''Remove GST'')
             = Fin False (1 / 2 ^ 1073)"
    using half tiny_values(3)[of False] by (simp add: calc_def)
  have 7: "gst.total (calc (JNum (gst.total (calc (JNum (Fin False (2 ^ 1023))) (JNum (Fin False 200)) ''Add GST'')))
                  (JNum (Fin False 200)) ''Remove GST'') = Fin False 0"
    unfolding 3 by (rule 4)
  have 8: "gst.total (calc (JNum (gst.total (calc (JNum (Fin False (1 / 2 ^ 1074))) (JNum (Fin True 50)) ''Add GST'')))
                  (JNum (Fin True 50)) ''Remove GST'') = Fin False (1 / 2 ^ 1073)"
    unfolding 5 by (rule 6)
  show ?thesis using 1 2 3 7 8 by blast
qed

section \<open>Number base converter: proofs\<close>

lemma digit_table:
  "list_all (\<lambda>d. charDigit (upperChar (digitChars ! nat d)) = Some d
                 \<and> upperChar (upperChar (digitChars ! nat d)) = upperChar (digitChars ! nat d)) [0..35]"
  by code_simp

lemma digit_char:
  assumes "0 \<le> d" and "d < 36"
  shows "charDigit (upperChar (digitChars ! nat d)) = Some d"
    and "upperChar (upperChar (digitChars ! nat d)) = upperChar (digitChars ! nat d)"
proof -
  have "d \<in> set [0..35]" using assms by simp
  with digit_table show "charDigit (upperChar (digitChars ! nat d)) = Some d"
    and "upperChar (upperChar (digitChars ! nat d)) = upperChar (digitChars ! nat d)"
    unfolding list_all_iff by blast+
qed

lemma radixVal_snoc: "radixVal R (xs @ [c]) = R * radixVal R xs + digitOf c"
  by (simp add: radixVal_def)

lemma upperDigit_char:
  assumes "0 \<le> d" and "d < R" and "R \<le> 36"
  shows "upperDigit R (upperChar (digitChars ! nat d))"
    and "digitOf (upperChar (digitChars ! nat d)) = d"
  using assms digit_char[of d] by (simp_all add: upperDigit_def isRadixDigit_def digitOf_def)

lemma toDigits_correct:
  assumes "2 \<le> R" and "R \<le> 36" and "0 \<le> n"
  shows "radixVal R (toUpperCase (toDigits R n)) = n
         \<and> list_all (upperDigit R) (toUpperCase (toDigits R n))
         \<and> toDigits R n \<noteq> []"
  using assms
proof (induction R n rule: toDigits.induct)
  case (1 R n)
  show ?case
  proof (cases "n < R")
    case True
    then have "toDigits R n = [digitChars ! nat n]"
      using "1.prems"(1) by (subst toDigits.simps) simp
    then show ?thesis
      using upperDigit_char[OF "1.prems"(3) True "1.prems"(2)]
      by (simp add: toUpperCase_def radixVal_def)
  next
    case False
    have R: "\<not> R < 2" using "1.prems"(1) by simp
    have m: "0 \<le> n mod R" "n mod R < R" using "1.prems"(1) by simp_all
    have d: "0 \<le> n div R" using "1.prems"(1,3) by (simp add: pos_imp_zdiv_nonneg_iff)
    from "1.IH"[OF R False "1.prems"(1,2) d]
    have ih: "radixVal R (toUpperCase (toDigits R (n div R))) = n div R"
      "list_all (upperDigit R) (toUpperCase (toDigits R (n div R)))" by simp_all
    have eq: "toDigits R n = toDigits R (n div R) @ [digitChars ! nat (n mod R)]"
      using R False by (subst toDigits.simps) simp
    have "radixVal R (toUpperCase (toDigits R n)) = R * (n div R) + n mod R"
      using ih(1) upperDigit_char(2)[OF m "1.prems"(2)]
      by (simp add: eq toUpperCase_def radixVal_snoc)
    then have "radixVal R (toUpperCase (toDigits R n)) = n" by simp
    moreover have "list_all (upperDigit R) (toUpperCase (toDigits R n))"
      using ih(2) upperDigit_char(1)[OF m "1.prems"(2)] by (simp add: eq toUpperCase_def)
    ultimately show ?thesis by (simp add: eq)
  qed
qed

lemma bases_range: "R \<in> set bases \<Longrightarrow> 2 \<le> R \<and> R \<le> 36"
  by (auto simp: bases_def)

lemma toInt32_small: "- (2 ^ 31) \<le> n \<Longrightarrow> n < 2 ^ 31 \<Longrightarrow> toInt32 n = n"
  by (simp add: toInt32_def)

lemma parseInt_digits:
  assumes "R \<in> set bases"
  shows "parseInt approxInt val R =
           (if digitsRead val R = [] then NaN
            else fround (minusSign val) (of_int (mathInt approxInt R (digitsRead val R))))"
proof -
  have "toInt32 R = R" using bases_range[OF assms] by (intro toInt32_small) simp_all
  then show ?thesis
    using bases_range[OF assms]
    by (auto simp: parseInt_def parseRadix_def integerOf_def digitsRead_def minusSign_def)
qed

lemma charDigit_range: "charDigit c = Some d \<Longrightarrow> 0 \<le> d \<and> d < 36"
  by (auto simp: charDigit_def split: if_splits)

lemma digitOf_nonneg: "0 \<le> digitOf c"
  using charDigit_range[of c] by (cases "charDigit c") (simp_all add: digitOf_def)

lemma radixVal_nonneg: "0 \<le> R \<Longrightarrow> 0 \<le> radixVal R ds"
proof (induction ds rule: rev_induct)
  case Nil
  then show ?case by (simp add: radixVal_def)
next
  case (snoc c ds)
  then show ?case using digitOf_nonneg[of c] by (simp add: radixVal_snoc)
qed

lemma ascii_units: "ascii ''-'' = [0x2D]" "ascii ''0'' = [0x30]"
  by (simp_all add: ascii_def codeUnit_def)

lemma toUpperCase_minus: "toUpperCase (ascii ''-'' @ ds) = ascii ''-'' @ toUpperCase ds"
  by (simp add: toUpperCase_def upperChar_def ascii_units)

text \<open>
  C9, as amended. For every text and bases \<open>from\<close> and \<open>to\<close> among 2, 8, 10, 16 and 36: when
  the text, after white space, a sign and (in base 16) \<open>0x\<close>, does not start with a digit of
  \<open>from\<close>, the output is \<open>-\<close>; when the digits it starts with denote an integer below
  \<open>2\<^sup>5\<^sup>3\<close>, the output is that integer written with upper-case digits of \<open>to\<close>, after a minus
  sign if the text has one and the integer is not zero. And \<open>42\<close> from base 10 to base 2 is
  \<open>101010\<close>.
\<close>

theorem baseOut_safe_integer:
  assumes "from \<in> set bases" and "to \<in> set bases"
  shows "(digitsRead val from = [] \<longrightarrow> baseOut approxInt approx val from to = Inr (ascii ''-''))
       \<and> (digitsRead val from \<noteq> [] \<and> radixVal from (digitsRead val from) < 2 ^ 53 \<longrightarrow>
            (\<exists>ds. baseOut approxInt approx val from to
                     = Inr ((if minusSign val \<and> radixVal from (digitsRead val from) \<noteq> 0
                             then ascii ''-'' else []) @ ds)
                 \<and> ds \<noteq> [] \<and> list_all (upperDigit to) ds
                 \<and> radixVal to ds = radixVal from (digitsRead val from)))
       \<and> baseOut approxInt approx (ascii ''42'') 10 2 = Inr (ascii ''101010'')"
proof -
  have rf: "2 \<le> from" "from \<le> 36" and rt: "2 \<le> to" "to \<le> 36"
    using bases_range[OF assms(1)] bases_range[OF assms(2)] by simp_all
  have a: "baseOut approxInt approx val from to = Inr (ascii ''-'')" if "digitsRead val from = []"
    using that by (simp add: baseOut_def parseInt_digits[OF assms(1)])
  have b: "\<exists>ds. baseOut approxInt approx val from to
                     = Inr ((if minusSign val \<and> radixVal from (digitsRead val from) \<noteq> 0
                             then ascii ''-'' else []) @ ds)
                 \<and> ds \<noteq> [] \<and> list_all (upperDigit to) ds
                 \<and> radixVal to ds = radixVal from (digitsRead val from)"
    if ne: "digitsRead val from \<noteq> []" and small: "radixVal from (digitsRead val from) < 2 ^ 53"
  proof -
    define N where "N = radixVal from (digitsRead val from)"
    have N0: "0 \<le> N" using rf(1) by (simp add: N_def radixVal_nonneg)
    have mi: "mathInt approxInt from (digitsRead val from) = N"
      using small by (simp add: mathInt_def N_def)
    have p: "parseInt approxInt val from = Fin (minusSign val) (of_int N)"
      using ne fround_of_int[OF N0, of "minusSign val"] small
      by (simp add: parseInt_digits[OF assms(1)] mi N_def[symmetric])
    from toDigits_correct[OF rt N0]
    have d: "radixVal to (toUpperCase (toDigits to N)) = N"
      "list_all (upperDigit to) (toUpperCase (toDigits to N))" "toDigits to N \<noteq> []" by simp_all
    have le: "(of_int N :: rat) \<le> of_int (2 ^ 53)"
      using small unfolding N_def[symmetric] by (simp only: of_int_le_iff)
    show ?thesis
    proof (cases "N = 0")
      case True
      have z: "toUpperCase (toDigits to 0) = ascii ''0''"
        using rt(1) by (subst toDigits.simps) (simp add: toUpperCase_def digitChars_def upperChar_def ascii_def codeUnit_def)
      have "baseOut approxInt approx val from to = Inr (ascii ''0'')"
        using p True rt by (simp add: baseOut_def toString_def toUpperCase_def upperChar_def ascii_units)
      then show ?thesis using True d z unfolding N_def[symmetric] by (simp add: ascii_units)
    next
      case False
      have "baseOut approxInt approx val from to
              = Inr (toUpperCase ((if minusSign val then ascii ''-'' else []) @ toDigits to N))"
        using p False rt le
        by (simp add: baseOut_def toString_def magnitudeString_def isInteger_def)
      then have "baseOut approxInt approx val from to
              = Inr ((if minusSign val then ascii ''-'' else []) @ toUpperCase (toDigits to N))"
        using toUpperCase_minus[of "toDigits to N"] by (cases "minusSign val") simp_all
      then show ?thesis using False d unfolding N_def[symmetric] by (auto simp: toUpperCase_def)
    qed
  qed
  have c: "baseOut approxInt approx (ascii ''42'') 10 2 = Inr (ascii ''101010'')" by code_simp
  show ?thesis using a b c by blast
qed

theorem baseOut_safe_integer_witness:
  "(16::int) \<in> set bases \<and> (36::int) \<in> set bases \<and> (10::int) \<in> set bases \<and> (2::int) \<in> set bases
   \<and> digitsRead (ascii '' -0x1f'') 16 = ascii ''1f'' \<and> minusSign (ascii '' -0x1f'')
   \<and> radixVal 16 (ascii ''1f'') = 31 \<and> (31::int) < 2 ^ 53
   \<and> baseOut (\<lambda>R ds. 0) (\<lambda>q r. []) (ascii '' -0x1f'') 16 36 = Inr (ascii ''-V'')
   \<and> list_all (upperDigit 36) (ascii ''V'') \<and> radixVal 36 (ascii ''V'') = 31
   \<and> digitsRead (ascii ''xyz'') 10 = []
   \<and> baseOut (\<lambda>R ds. 0) (\<lambda>q r. []) (ascii ''xyz'') 10 2 = Inr (ascii ''-'')
   \<and> digitsRead ([0x00A0, 0x2003, 0xFEFF] @ ascii ''42 '') 10 = ascii ''42''
   \<and> radixVal 10 (ascii ''42'') = 42
   \<and> baseOut (\<lambda>R ds. 0) (\<lambda>q r. []) ([0x00A0, 0x2003, 0xFEFF] @ ascii ''42 '') 10 2 = Inr (ascii ''101010'')"
proof -
  have m: "(16::int) \<in> set bases" "(36::int) \<in> set bases" "(10::int) \<in> set bases" "(2::int) \<in> set bases"
    by (simp_all add: bases_def)
  have d: "digitsRead (ascii '' -0x1f'') 16 = ascii ''1f''" "minusSign (ascii '' -0x1f'')"
    "radixVal 16 (ascii ''1f'') = 31"
    "digitsRead (ascii ''xyz'') 10 = []" "list_all (upperDigit 36) (ascii ''V'')"
    "radixVal 36 (ascii ''V'') = 31"
    "digitsRead ([0x00A0, 0x2003, 0xFEFF] @ ascii ''42 '') 10 = ascii ''42''"
    "radixVal 10 (ascii ''42'') = 42"
    by code_simp+
  have e: "baseOut (\<lambda>R ds. 0) (\<lambda>q r. []) (ascii '' -0x1f'') 16 36 = Inr (ascii ''-V'')"
    "baseOut (\<lambda>R ds. 0) (\<lambda>q r. []) ([0x00A0, 0x2003, 0xFEFF] @ ascii ''42 '') 10 2 = Inr (ascii ''101010'')"
    by code_simp+
  show ?thesis
    using m d e
      baseOut_safe_integer[OF m(1) m(2), of "ascii '' -0x1f''" "\<lambda>R ds. 0" "\<lambda>q r. []"]
      baseOut_safe_integer[OF m(3) m(4), of "ascii ''xyz''" "\<lambda>R ds. 0" "\<lambda>q r. []"]
      baseOut_safe_integer[OF m(3) m(4), of "[0x00A0, 0x2003, 0xFEFF] @ ascii ''42 ''" "\<lambda>R ds. 0" "\<lambda>q r. []"]
    by simp
qed

lemma big_hex: "radixVal 16 (ascii ''1'' @ replicate 256 (codeUnit CHR ''0'')) = 2 ^ 1024"
  by code_simp

lemma big_hex_read:
  "digitsRead (ascii ''1'' @ replicate 256 (codeUnit CHR ''0'')) 16
     = ascii ''1'' @ replicate 256 (codeUnit CHR ''0'')"
  by code_simp

lemma big_hex_sign: "minusSign (ascii ''1'' @ replicate 256 (codeUnit CHR ''0'')) = False"
  by code_simp

text \<open>
  A hexadecimal 1 followed by 256 zeros is \<open>2\<^sup>1\<^sup>0\<^sup>2\<^sup>4\<close>, which \<open>parseInt\<close> returns as \<open>Infinity\<close>: the
  output is the word \<open>INFINITY\<close>, not a string of binary digits. And \<open>2\<^sup>5\<^sup>3 + 1\<close> is rounded
  when it is read, so that it comes back as \<open>2\<^sup>5\<^sup>3\<close>. In both the standard fixes the integer
  that the digits denote, whatever the host.
\<close>

theorem baseOut_counterexample:
  "parseInt (\<lambda>R ds. 0) (ascii ''1'' @ replicate 256 (codeUnit CHR ''0'')) 16 = Infinity False
   \<and> baseOut (\<lambda>R ds. 0) (\<lambda>q r. []) (ascii ''1'' @ replicate 256 (codeUnit CHR ''0'')) 16 2
       = Inr (ascii ''INFINITY'')
   \<and> \<not> list_all (upperDigit 2) (ascii ''INFINITY'')
   \<and> baseOut (\<lambda>R ds. 0) (\<lambda>q r. []) (ascii ''9007199254740993'') 10 10
       = Inr (ascii ''9007199254740992'')"
proof -
  define approxInt :: "int \<Rightarrow> jsstring \<Rightarrow> nat" where "approxInt = (\<lambda>R ds. 0)"
  define approx :: "rat \<Rightarrow> int \<Rightarrow> jsstring" where "approx = (\<lambda>q r. [])"
  have m: "(16::int) \<in> set bases" by (simp add: bases_def)
  have "pow2 1024 \<le> of_int (2 ^ 1024)" by (simp add: pow2_def)
  then have "fround False (of_int (2 ^ 1024)) = Infinity False" by (rule fround_overflow)
  then have p: "parseInt approxInt (ascii ''1'' @ replicate 256 (codeUnit CHR ''0'')) 16 = Infinity False"
    unfolding parseInt_digits[OF m] big_hex_read big_hex_sign
    by (simp add: mathInt_def fixedByStandard_def big_hex)
  have u: "toUpperCase (ascii ''Infinity'') = ascii ''INFINITY''" by code_simp
  have o: "baseOut approxInt approx (ascii ''1'' @ replicate 256 (codeUnit CHR ''0'')) 16 2
             = Inr (ascii ''INFINITY'')"
    unfolding baseOut_def p by (simp add: toString_def u)
  have n: "\<not> list_all (upperDigit 2) (ascii ''INFINITY'')" by code_simp
  have r: "baseOut (\<lambda>R ds. 0) (\<lambda>q r. []) (ascii ''9007199254740993'') 10 10
             = Inr (ascii ''9007199254740992'')"
    by code_simp
  show ?thesis using p o n r unfolding approxInt_def approx_def by simp
qed

end
